theory Spec2Isabelle
  imports Main
begin

section \<open>Strings and numbers as the JavaScript source uses them\<close>

text \<open>
  Strings are lists of characters. The model covers ASCII text: case conversion acts on
  the 26 letters and leaves every other character alone, white space is the ASCII white
  space, and numbers are unbounded integers printed in decimal.
\<close>

definition lower_letters :: string where
  "lower_letters = ''abcdefghijklmnopqrstuvwxyz''"

definition upper_letters :: string where
  "upper_letters = ''ABCDEFGHIJKLMNOPQRSTUVWXYZ''"

definition toUpperCase :: "char \<Rightarrow> char" where
  "toUpperCase c = (case map_of (zip lower_letters upper_letters) c of Some d \<Rightarrow> d | None \<Rightarrow> c)"

definition toLowerCase :: "char \<Rightarrow> char" where
  "toLowerCase c = (case map_of (zip upper_letters lower_letters) c of Some d \<Rightarrow> d | None \<Rightarrow> c)"

definition digit_chars :: string where
  "digit_chars = ''0123456789''"

text \<open>The regular expression \<open>\d\<close>.\<close>

definition is_digit :: "char \<Rightarrow> bool" where
  "is_digit c = (c \<in> set digit_chars)"

fun index_of :: "'a list \<Rightarrow> 'a \<Rightarrow> nat option" where
  "index_of [] x = None"
| "index_of (y # ys) x = (if y = x then Some 0 else map_option Suc (index_of ys x))"

definition digit_val :: "char \<Rightarrow> nat" where
  "digit_val c = (case index_of digit_chars c of Some n \<Rightarrow> n | None \<Rightarrow> 0)"

definition digit_char :: "nat \<Rightarrow> char" where
  "digit_char n = digit_chars ! (n mod 10)"

text \<open>Number to string, as string concatenation and template literals do it.\<close>

function show_nat :: "nat \<Rightarrow> string" where
  "show_nat n = (if n < 10 then [digit_char n] else show_nat (n div 10) @ [digit_char (n mod 10)])"
  by pat_completeness auto
termination
  by (relation "measure (\<lambda>n. n)") auto

declare show_nat.simps [simp del]

definition show_int :: "int \<Rightarrow> string" where
  "show_int i = (if i < 0 then CHR ''-'' # show_nat (nat (- i)) else show_nat (nat i))"

definition is_space :: "char \<Rightarrow> bool" where
  "is_space c = (c \<in> set [CHR '' '', CHR 0x09, CHR 0x0A, CHR 0x0B, CHR 0x0C, CHR 0x0D])"

definition hex_chars :: string where
  "hex_chars = ''0123456789abcdef''"

definition hex_val :: "char \<Rightarrow> nat option" where
  "hex_val c = index_of hex_chars (toLowerCase c)"

definition digits_value :: "nat \<Rightarrow> nat list \<Rightarrow> nat" where
  "digits_value radix ds = foldl (\<lambda>acc d. acc * radix + d) 0 ds"

text \<open>
  \<open>parseInt(s)\<close> with no radix: leading white space is skipped, a sign is read, a
  \<open>0x\<close> prefix selects base 16, and the longest prefix of digits is the value. No digit at
  all is \<open>NaN\<close>, here \<open>None\<close>.
\<close>

definition parse_digits :: "bool \<Rightarrow> string \<Rightarrow> int option" where
  "parse_digits neg s =
     (let hex = (case s of a # b # _ \<Rightarrow> a = CHR ''0'' \<and> (b = CHR ''x'' \<or> b = CHR ''X'') | _ \<Rightarrow> False);
          ds = (if hex then map (\<lambda>c. the (hex_val c)) (takeWhile (\<lambda>c. hex_val c \<noteq> None) (drop 2 s))
                else map digit_val (takeWhile is_digit s));
          v = int (digits_value (if hex then 16 else 10) ds)
      in if ds = [] then None else Some (if neg then - v else v))"

definition parseInt :: "string \<Rightarrow> int option" where
  "parseInt s =
     (case dropWhile is_space s of
        [] \<Rightarrow> None
      | c # cs \<Rightarrow>
          if c = CHR ''-'' then parse_digits True cs
          else if c = CHR ''+'' then parse_digits False cs
          else parse_digits False (c # cs))"

text \<open>\<open>s.split(d)\<close> for a one-character separator; the empty string splits into one empty part.\<close>

fun split_acc :: "char \<Rightarrow> string \<Rightarrow> string \<Rightarrow> string list" where
  "split_acc d acc [] = [rev acc]"
| "split_acc d acc (c # cs) =
     (if c = d then rev acc # split_acc d [] cs else split_acc d (c # acc) cs)"

definition split :: "char \<Rightarrow> string \<Rightarrow> string list" where
  "split d s = split_acc d [] s"

text \<open>\<open>parts[i]\<close>: \<open>undefined\<close> (here \<open>None\<close>) beyond the end of the array.\<close>

definition at_index :: "'a list \<Rightarrow> nat \<Rightarrow> 'a option" where
  "at_index xs i = (if i < length xs then Some (xs ! i) else None)"

text \<open>\<open>parts.slice(0, n).join(sep)\<close>.\<close>

fun join :: "string \<Rightarrow> string list \<Rightarrow> string" where
  "join sep [] = []"
| "join sep [x] = x"
| "join sep (x # y # ys) = x @ sep @ join sep (y # ys)"

section \<open>The chess validator: pieces, board and position string\<close>

text \<open>
  A piece is the object \<open>{ type, color }\<close>: the type is the lower-cased letter of the
  position string, the colour one of the strings \<open>white\<close> and \<open>black\<close>. A board is an
  array of rows of cells, \<open>None\<close> standing for \<open>null\<close> and for a hole of the array.
\<close>

record piece =
  type :: char
  color :: string

type_synonym board = "piece option list list"

type_synonym square = "int \<times> int"

record move =
  "from" :: square
  to :: square

definition FILES :: string where
  "FILES = ''abcdefgh''"

definition RANKS :: string where
  "RANKS = ''87654321''"

definition ranks8 :: "int list" where
  "ranks8 = [0, 1, 2, 3, 4, 5, 6, 7]"

text \<open>The nested loops \<open>for rank = 0..7, for file = 0..7\<close>, in the order they visit the squares.\<close>

definition all_squares :: "square list" where
  "all_squares = concat (map (\<lambda>r. map (\<lambda>f. (r, f)) ranks8) ranks8)"

text \<open>
  \<open>board[r][c]\<close>. A column beyond the row reads \<open>undefined\<close>, which the source treats like
  \<open>null\<close>. A row beyond the board would raise a TypeError; every board has the eight rows
  that \<open>parseFen\<close> allocates and every caller passes a rank from 0 to 7, so the model
  returns \<open>None\<close> there.
\<close>

definition cell :: "board \<Rightarrow> int \<Rightarrow> int \<Rightarrow> piece option" where
  "cell b r c =
     (if 0 \<le> r \<and> r < int (length b) then
        (let row = b ! nat r in if 0 \<le> c \<and> c < int (length row) then row ! nat c else None)
      else None)"

text \<open>\<open>row[i] = x\<close>: an index beyond the end extends the array, leaving holes.\<close>

definition row_set :: "piece option list \<Rightarrow> nat \<Rightarrow> piece option \<Rightarrow> piece option list" where
  "row_set row i x =
     (if i < length row then row[i := x] else row @ replicate (i - length row) None @ [x])"

text \<open>\<open>board[r][c] = x\<close>, for a row of the board and a column that is not negative.\<close>

definition set_cell :: "board \<Rightarrow> int \<Rightarrow> int \<Rightarrow> piece option \<Rightarrow> board" where
  "set_cell b r c x =
     (if 0 \<le> r \<and> r < int (length b) \<and> 0 \<le> c then b[nat r := row_set (b ! nat r) (nat c) x] else b)"

definition empty_board :: board where
  "empty_board = replicate 8 (replicate 8 None)"

definition piece_of_char :: "char \<Rightarrow> piece" where
  "piece_of_char c =
     \<lparr>type = toLowerCase c, color = (if c = toUpperCase c then ''white'' else ''black'')\<rparr>"

text \<open>
  The loop of \<open>parseFen\<close> over the characters of the first field. Placing a piece on a
  rank beyond the eighth raises a TypeError (\<open>None\<close>).
\<close>

fun parseFen_loop :: "string \<Rightarrow> board \<Rightarrow> int \<Rightarrow> int \<Rightarrow> board option" where
  "parseFen_loop [] b rank file = Some b"
| "parseFen_loop (c # cs) b rank file =
     (if c = CHR ''/'' then parseFen_loop cs b (rank + 1) 0
      else if is_digit c then parseFen_loop cs b rank (file + int (digit_val c))
      else if rank < int (length b) then
        parseFen_loop cs (set_cell b rank file (Some (piece_of_char c))) rank (file + 1)
      else None)"

definition parseFen :: "string \<Rightarrow> board option" where
  "parseFen fen = parseFen_loop (hd (split CHR '' '' fen)) empty_board 0 0"

definition char_of_piece :: "piece \<Rightarrow> char" where
  "char_of_piece p =
     (let ch = toUpperCase (type p) in if color p = ''white'' then ch else toLowerCase ch)"

text \<open>The inner loop of \<open>boardToFen\<close> over the files of one rank; \<open>n\<close> is the counter \<open>empty\<close> of the run of empty cells.\<close>

fun boardToFen_files :: "piece option list \<Rightarrow> nat \<Rightarrow> string" where
  "boardToFen_files [] n = (if n > 0 then show_nat n else [])"
| "boardToFen_files (None # cs) n = boardToFen_files cs (n + 1)"
| "boardToFen_files (Some p # cs) n =
     (if n > 0 then show_nat n else []) @ char_of_piece p # boardToFen_files cs 0"

definition boardToFen_rank :: "board \<Rightarrow> int \<Rightarrow> string" where
  "boardToFen_rank b rank =
     boardToFen_files (map (cell b rank) ranks8) 0 @ (if rank < 7 then ''/'' else [])"

definition boardToFen :: "board \<Rightarrow> string \<Rightarrow> string \<Rightarrow> string \<Rightarrow> int \<Rightarrow> int \<Rightarrow> string" where
  "boardToFen b turn castling enPassant halfMoveClock fullMoveNumber =
     concat (map (boardToFen_rank b) ranks8) @ '' '' @ turn @ '' '' @ castling @ '' '' @ enPassant
       @ '' '' @ show_int halfMoveClock @ '' '' @ show_int fullMoveNumber"

text \<open>The validator object. \<open>turn\<close>, \<open>castling\<close> and \<open>enPassant\<close> are the strings of the position string.\<close>

record validator =
  fen :: string
  board :: board
  turn :: string
  castling :: string
  enPassant :: string
  halfMoveClock :: int
  fullMoveNumber :: int

text \<open>\<open>parts[i] || d\<close> for strings: \<open>undefined\<close> and the empty string give the default.\<close>

definition str_or :: "string option \<Rightarrow> string \<Rightarrow> string" where
  "str_or x d = (case x of None \<Rightarrow> d | Some s \<Rightarrow> if s = [] then d else s)"

text \<open>\<open>parseInt(parts[i]) || d\<close>: \<open>undefined\<close>, \<open>NaN\<close> and 0 give the default.\<close>

definition int_or :: "string option \<Rightarrow> int \<Rightarrow> int" where
  "int_or x d =
     (case x of None \<Rightarrow> d
      | Some s \<Rightarrow> (case parseInt s of None \<Rightarrow> d | Some n \<Rightarrow> if n = 0 then d else n))"

definition parseFenState :: "string \<Rightarrow> validator \<Rightarrow> validator" where
  "parseFenState f v =
     (let parts = split CHR '' '' f in
      v\<lparr>turn := str_or (at_index parts 1) ''w'',
        castling := str_or (at_index parts 2) ''KQkq'',
        enPassant := str_or (at_index parts 3) ''-'',
        halfMoveClock := int_or (at_index parts 4) 0,
        fullMoveNumber := int_or (at_index parts 5) 1\<rparr>)"

text \<open>The constructor; \<open>None\<close> when \<open>parseFen\<close> raises.\<close>

definition new_validator :: "string \<Rightarrow> validator option" where
  "new_validator f =
     (case parseFen f of
        None \<Rightarrow> None
      | Some b \<Rightarrow>
          Some (parseFenState f
            \<lparr>fen = f, board = b, turn = [], castling = [], enPassant = [],
             halfMoveClock = 0, fullMoveNumber = 0\<rparr>))"

definition INITIAL_FEN :: string where
  "INITIAL_FEN = ''rnbqkbnr/pppppppp/8/8/8/8/PPPPPPPP/RNBQKBNR w KQkq - 0 1''"

section \<open>Move notation\<close>

datatype side = Kingside | Queenside

record parsed_san =
  piece :: char
  fromFile :: "char option"
  fromRank :: "char option"
  isCapture :: bool
  toFile :: char
  toRank :: char
  promotion :: "char option"

datatype parsed = ParsedCastling side | ParsedMove parsed_san

text \<open>
  The regular expression of \<open>parseSan\<close>,
  \<^verbatim>\<open>/^([KQRBN])?([a-h])?([1-8])?(x)?([a-h])([1-8])(=[QRBN])?$/i\<close>,
  as a backtracking matcher: an optional group is tried with its character first and
  without it when the rest then fails. The flag \<open>i\<close> makes every class ignore case.
\<close>

definition in_class :: "string \<Rightarrow> char \<Rightarrow> bool" where
  "in_class cls c = (toLowerCase c \<in> set cls)"

definition opt_group :: "string \<Rightarrow> (char option \<Rightarrow> string \<Rightarrow> 'a option) \<Rightarrow> string \<Rightarrow> 'a option" where
  "opt_group cls k s =
     (case s of
        [] \<Rightarrow> k None s
      | c # cs \<Rightarrow>
          if in_class cls c then (case k (Some c) cs of Some r \<Rightarrow> Some r | None \<Rightarrow> k None s)
          else k None s)"

definition req_group :: "string \<Rightarrow> (char \<Rightarrow> string \<Rightarrow> 'a option) \<Rightarrow> string \<Rightarrow> 'a option" where
  "req_group cls k s = (case s of [] \<Rightarrow> None | c # cs \<Rightarrow> if in_class cls c then k c cs else None)"

text \<open>The last group \<open>(=[QRBN])?\<close> and the end of the string.\<close>

definition promotion_group :: "(char option \<Rightarrow> 'a option) \<Rightarrow> string \<Rightarrow> 'a option" where
  "promotion_group k s =
     (case s of
        [] \<Rightarrow> k None
      | [e, c] \<Rightarrow> if e = CHR ''='' \<and> in_class ''qrbn'' c then k (Some c) else None
      | _ \<Rightarrow> None)"

definition san_match :: "string \<Rightarrow> parsed_san option" where
  "san_match san =
     opt_group ''kqrbn'' (\<lambda>m1.
     opt_group ''abcdefgh'' (\<lambda>m2.
     opt_group ''12345678'' (\<lambda>m3.
     opt_group ''x'' (\<lambda>m4.
     req_group ''abcdefgh'' (\<lambda>m5.
     req_group ''12345678'' (\<lambda>m6.
     promotion_group (\<lambda>m7.
       Some \<lparr>piece = toLowerCase (case m1 of None \<Rightarrow> CHR ''p'' | Some c \<Rightarrow> c),
             fromFile = m2, fromRank = m3, isCapture = (m4 \<noteq> None),
             toFile = m5, toRank = m6, promotion = map_option toLowerCase m7\<rparr>))))))) san"

definition parseSan :: "string \<Rightarrow> parsed option" where
  "parseSan san =
     (if san = ''O-O'' then Some (ParsedCastling Kingside)
      else if san = ''O-O-O'' then Some (ParsedCastling Queenside)
      else map_option ParsedMove (san_match san))"

section \<open>Movement rules\<close>

text \<open>\<open>FILES[i]\<close> inside a template literal: the text \<open>undefined\<close> outside the array.\<close>

definition str_at :: "string \<Rightarrow> int \<Rightarrow> string" where
  "str_at s i = (if 0 \<le> i \<and> i < int (length s) then [s ! nat i] else ''undefined'')"

definition on_board :: "int \<Rightarrow> int \<Rightarrow> bool" where
  "on_board r c = (0 \<le> r \<and> r \<le> 7 \<and> 0 \<le> c \<and> c \<le> 7)"

text \<open>
  The \<open>while\<close> loop of \<open>isPathClear\<close>. The source calls it only for two squares of the
  board on one rank, file or diagonal, where it walks from one to the other. \<open>None\<close> is the
  walk leaving the board, where the source raises a TypeError.
\<close>

function isPathClear_loop :: "board \<Rightarrow> int \<Rightarrow> int \<Rightarrow> int \<Rightarrow> int \<Rightarrow> int \<Rightarrow> int \<Rightarrow> bool option" where
  "isPathClear_loop b dr dc tRank tFile r c =
     (if r \<noteq> tRank \<or> c \<noteq> tFile then
        (if on_board r c \<and> (dr \<noteq> 0 \<or> dc \<noteq> 0) then
           (if cell b r c \<noteq> None then Some False
            else isPathClear_loop b dr dc tRank tFile (r + dr) (c + dc))
         else None)
      else Some True)"
  by pat_completeness auto
termination
  by (relation "measure (\<lambda>(b, dr, dc, tRank, tFile, r, c).
        nat (if dr > 0 then 8 - r else if dr < 0 then r + 1 else if dc > 0 then 8 - c else c + 1))")
     (auto simp: on_board_def)

declare isPathClear_loop.simps [simp del]

definition isPathClear :: "validator \<Rightarrow> square \<Rightarrow> square \<Rightarrow> bool option" where
  "isPathClear v fromSquare toSquare =
     (let fromRank = fst fromSquare; fromFile = snd fromSquare;
          toRank = fst toSquare; toFile = snd toSquare;
          dr = sgn (toRank - fromRank); dc = sgn (toFile - fromFile)
      in isPathClear_loop (board v) dr dc toRank toFile (fromRank + dr) (fromFile + dc))"

definition isPseudoLegalMove :: "validator \<Rightarrow> piece \<Rightarrow> square \<Rightarrow> square \<Rightarrow> bool" where
  "isPseudoLegalMove v p fromSquare toSquare =
     (let fromRank = fst fromSquare; fromFile = snd fromSquare;
          toRank = fst toSquare; toFile = snd toSquare;
          dr = toRank - fromRank; dc = toFile - fromFile;
          absDr = \<bar>dr\<bar>; absDc = \<bar>dc\<bar>
      in if type p = CHR ''p'' then
           (let direction = (if color p = ''white'' then - 1 else 1);
                startRank = (if color p = ''white'' then 6 else 1)
            in if dc = 0 \<and> dr = direction \<and> cell (board v) toRank toFile = None then True
               else if dc = 0 \<and> dr = 2 * direction \<and> fromRank = startRank
                       \<and> cell (board v) (fromRank + direction) fromFile = None
                       \<and> cell (board v) toRank toFile = None then True
               else if absDc = 1 \<and> dr = direction then
                 (if (case cell (board v) toRank toFile of None \<Rightarrow> False
                      | Some q \<Rightarrow> color q \<noteq> color p) then True
                  else if enPassant v \<noteq> [] \<and> enPassant v = str_at FILES toFile @ str_at RANKS toRank
                  then True
                  else False)
               else False)
         else if type p = CHR ''n'' then (absDr = 2 \<and> absDc = 1) \<or> (absDr = 1 \<and> absDc = 2)
         else if type p = CHR ''b'' then absDr = absDc \<and> isPathClear v fromSquare toSquare = Some True
         else if type p = CHR ''r'' then (dr = 0 \<or> dc = 0) \<and> isPathClear v fromSquare toSquare = Some True
         else if type p = CHR ''q'' then
           (absDr = absDc \<or> (dr = 0 \<or> dc = 0)) \<and> isPathClear v fromSquare toSquare = Some True
         else if type p = CHR ''k'' then absDr \<le> 1 \<and> absDc \<le> 1
         else False)"

text \<open>The copy of the board with the piece of \<open>move.from\<close> (or \<open>null\<close>) put on \<open>move.to\<close>.\<close>

definition makeMoveOnBoard :: "board \<Rightarrow> move \<Rightarrow> board" where
  "makeMoveOnBoard b m =
     (let p = cell b (fst (from m)) (snd (from m));
          newBoard = set_cell b (fst (to m)) (snd (to m)) p
      in set_cell newBoard (fst (from m)) (snd (from m)) None)"

definition isSquareAttacked :: "validator \<Rightarrow> square \<Rightarrow> string \<Rightarrow> bool" where
  "isSquareAttacked v sq byColor =
     list_ex (\<lambda>(r, f). case cell (board v) r f of
                 None \<Rightarrow> False
               | Some p \<Rightarrow> color p = byColor \<and> isPseudoLegalMove v p (r, f) sq) all_squares"

definition findKingOnBoard :: "string \<Rightarrow> board \<Rightarrow> square option" where
  "findKingOnBoard c b =
     find (\<lambda>(r, f). case cell b r f of
             None \<Rightarrow> False
           | Some p \<Rightarrow> type p = CHR ''k'' \<and> color p = c) all_squares"

text \<open>The source swaps \<open>this.board\<close> for the given board while it looks for attackers.\<close>

definition isKingInCheck :: "validator \<Rightarrow> string \<Rightarrow> board \<Rightarrow> bool" where
  "isKingInCheck v c b =
     (case findKingOnBoard c b of
        None \<Rightarrow> False
      | Some kingPos \<Rightarrow>
          isSquareAttacked (v\<lparr>board := b\<rparr>) kingPos (if c = ''white'' then ''black'' else ''white''))"

section \<open>Validating and applying a move\<close>

text \<open>
  The scan of \<open>findPieceMove\<close>: every square, in scan order, that holds a piece of the
  wanted type and of the colour \<open>this.turn\<close>, agrees with the hints, can move to the target
  and does not leave the own king attacked.
\<close>

definition candidates :: "validator \<Rightarrow> char \<Rightarrow> char option \<Rightarrow> char option \<Rightarrow> square \<Rightarrow> move list" where
  "candidates v pieceType fFile fRank toSquare =
     map (\<lambda>sq. \<lparr>from = sq, to = toSquare\<rparr>)
       (filter (\<lambda>(r, f).
          (case cell (board v) r f of
             None \<Rightarrow> False
           | Some p \<Rightarrow>
               type p = pieceType \<and> color p = turn v
               \<and> (case fFile of None \<Rightarrow> True | Some h \<Rightarrow> str_at FILES f = [h])
               \<and> (case fRank of None \<Rightarrow> True | Some h \<Rightarrow> str_at RANKS r = [h])
               \<and> isPseudoLegalMove v p (r, f) toSquare
               \<and> \<not> isKingInCheck v (turn v)
                     (makeMoveOnBoard (board v) \<lparr>from = (r, f), to = toSquare\<rparr>)))
          all_squares)"

definition findPieceMove :: "validator \<Rightarrow> char \<Rightarrow> char option \<Rightarrow> char option \<Rightarrow> square \<Rightarrow> move option" where
  "findPieceMove v pieceType fFile fRank toSquare =
     (case candidates v pieceType fFile fRank toSquare of
        [] \<Rightarrow> None
      | [m] \<Rightarrow> Some m
      | m # ms \<Rightarrow>
          (case (fFile, fRank) of
             (Some hf, Some hr) \<Rightarrow>
               find (\<lambda>m'. str_at FILES (snd (from m')) = [hf] \<and> str_at RANKS (fst (from m')) = [hr])
                 (m # ms)
           | _ \<Rightarrow> Some m))"

text \<open>
  \<open>updateCastlingRights\<close> and \<open>updateEnPassant\<close> read the square \<open>move.from\<close> of
  \<open>this.board\<close>; \<open>applyMove\<close> calls them after it has replaced \<open>this.board\<close>.
\<close>

definition updateCastlingRights :: "validator \<Rightarrow> move \<Rightarrow> validator" where
  "updateCastlingRights v m =
     (let fromRank = fst (from m); fromFile = snd (from m) in
      case cell (board v) fromRank fromFile of
        None \<Rightarrow> v
      | Some p \<Rightarrow>
          (let v1 = (if type p = CHR ''k'' then
                       (if color p = ''white''
                        then v\<lparr>castling := filter (\<lambda>c. c \<notin> set ''KQ'') (castling v)\<rparr>
                        else v\<lparr>castling := filter (\<lambda>c. c \<notin> set ''kq'') (castling v)\<rparr>)
                     else v)
           in if type p = CHR ''r'' \<or> type p = CHR ''R'' then
                (let v2 = (if fromRank = 7 \<and> fromFile = 0
                           then v1\<lparr>castling := remove1 CHR ''Q'' (castling v1)\<rparr> else v1);
                     v3 = (if fromRank = 7 \<and> fromFile = 7
                           then v2\<lparr>castling := remove1 CHR ''K'' (castling v2)\<rparr> else v2);
                     v4 = (if fromRank = 0 \<and> fromFile = 0
                           then v3\<lparr>castling := remove1 CHR ''q'' (castling v3)\<rparr> else v3)
                 in if fromRank = 0 \<and> fromFile = 7
                    then v4\<lparr>castling := remove1 CHR ''k'' (castling v4)\<rparr> else v4)
              else v1))"

definition updateEnPassant :: "validator \<Rightarrow> move \<Rightarrow> parsed_san \<Rightarrow> validator" where
  "updateEnPassant v m ps =
     (let fromRank = fst (from m) in
      if (case cell (board v) fromRank (snd (from m)) of None \<Rightarrow> False | Some p \<Rightarrow> type p = CHR ''p'')
         \<and> \<bar>fst (to m) - fromRank\<bar> = 2
      then v\<lparr>enPassant := str_at FILES (snd (to m)) @ str_at RANKS ((fromRank + fst (to m)) div 2)\<rparr>
      else v\<lparr>enPassant := ''-''\<rparr>)"

definition applyMove :: "validator \<Rightarrow> move \<Rightarrow> parsed_san \<Rightarrow> validator" where
  "applyMove v m ps =
     (let v1 = v\<lparr>board := makeMoveOnBoard (board v) m\<rparr>;
          v2 = updateCastlingRights v1 m;
          v3 = updateEnPassant v2 m ps;
          v4 = v3\<lparr>turn := (if turn v3 = ''white'' then ''black'' else ''white'')\<rparr>;
          v5 = (if turn v4 = ''white'' then v4\<lparr>fullMoveNumber := fullMoveNumber v4 + 1\<rparr> else v4)
      in v5\<lparr>fen := boardToFen (board v5) (turn v5) (castling v5) (enPassant v5)
                      (halfMoveClock v5) (fullMoveNumber v5)\<rparr>)"

text \<open>The reasons a move is refused, one for each error text of the source.\<close>

datatype reject =
    InvalidSan string
  | InvalidTarget
  | OwnPiece
  | CaptureOnEmpty
  | NoLegalMove
  | LeavesKingInCheck
  | CastlingNotAvailable
  | CastleInCheck
  | CastlingBlocked
  | CastleThroughCheck

text \<open>
  The result object: \<open>valid: false\<close> with its error, or \<open>valid: true\<close> with the move; for
  an ordinary move also \<open>capture\<close> and \<open>promotion\<close>, for castling the side.
\<close>

datatype validation =
    Invalid reject
  | ValidMove move bool "char option"
  | ValidCastling move side

definition valid :: "validation \<Rightarrow> bool" where
  "valid r = (case r of Invalid _ \<Rightarrow> False | _ \<Rightarrow> True)"

definition validateCastling :: "validator \<Rightarrow> side \<Rightarrow> validation" where
  "validateCastling v sd =
     (let rank = (if turn v = ''white'' then 7 else 0);
          kingFile = 4;
          castlingChar = (if turn v = ''white''
                          then (if sd = Kingside then CHR ''K'' else CHR ''Q'')
                          else (if sd = Kingside then CHR ''k'' else CHR ''q''))
      in if castlingChar \<notin> set (castling v) then Invalid CastlingNotAvailable
         else if isKingInCheck v (turn v) (board v) then Invalid CastleInCheck
         else
           (let kingDestFile = (if sd = Kingside then 6 else 2);
                rookFile = (if sd = Kingside then 7 else 0)
            in if list_ex (\<lambda>f. cell (board v) rank f \<noteq> None)
                    [min kingFile rookFile + 1 .. max kingFile rookFile - 1]
               then Invalid CastlingBlocked
               else
                 (let m = \<lparr>from = (rank, kingFile), to = (rank, kingDestFile)\<rparr>;
                      intermediateBoard = makeMoveOnBoard (board v)
                        \<lparr>from = (rank, kingFile),
                         to = (rank, kingFile + (if sd = Kingside then 1 else - 1))\<rparr>
                  in if isKingInCheck v (turn v) intermediateBoard then Invalid CastleThroughCheck
                     else ValidCastling m sd)))"

text \<open>\<open>FILES.indexOf(x)\<close>, with \<open>-1\<close> for a character that is not there.\<close>

definition indexOf :: "string \<Rightarrow> char \<Rightarrow> int" where
  "indexOf s c = (case index_of s c of None \<Rightarrow> - 1 | Some i \<Rightarrow> int i)"

text \<open>\<open>validateMove\<close> returns its result and leaves the validator in a new state.\<close>

definition validateMove :: "validator \<Rightarrow> string \<Rightarrow> validation \<times> validator" where
  "validateMove v san =
     (case parseSan san of
        None \<Rightarrow> (Invalid (InvalidSan san), v)
      | Some (ParsedCastling sd) \<Rightarrow> (validateCastling v sd, v)
      | Some (ParsedMove ps) \<Rightarrow>
          (let toFileIndex = indexOf FILES (toFile ps);
               toRankIndex = indexOf RANKS (toRank ps)
           in if toFileIndex = - 1 \<or> toRankIndex = - 1 then (Invalid InvalidTarget, v)
              else
                (let targetSquare = (toRankIndex, toFileIndex);
                     targetPiece = cell (board v) toRankIndex toFileIndex
                 in if (case targetPiece of None \<Rightarrow> False | Some q \<Rightarrow> color q = turn v)
                    then (Invalid OwnPiece, v)
                    else if isCapture ps \<and> targetPiece = None
                            \<and> (piece ps \<noteq> CHR ''p'' \<or> enPassant v \<noteq> [toFile ps, toRank ps])
                    then (Invalid CaptureOnEmpty, v)
                    else
                      (case findPieceMove v (piece ps) (fromFile ps) (fromRank ps) targetSquare of
                         None \<Rightarrow> (Invalid NoLegalMove, v)
                       | Some m \<Rightarrow>
                           if isKingInCheck v (turn v) (makeMoveOnBoard (board v) m)
                           then (Invalid LeavesKingInCheck, v)
                           else (ValidMove m (targetPiece \<noteq> None) (promotion ps),
                                 applyMove v m ps)))))"

section \<open>Terminal conditions\<close>

text \<open>
  The four nested loops that \<open>isCheckmate\<close>, \<open>isStalemate\<close> and \<open>getLegalMoves\<close> share:
  the moves of the pieces of colour \<open>this.turn\<close> that pass \<open>isPseudoLegalMove\<close> and leave
  the own king unattacked, in the order the loops meet them.
\<close>

definition safeMoves :: "validator \<Rightarrow> move list" where
  "safeMoves v =
     concat (map (\<lambda>(r, f).
        case cell (board v) r f of
          None \<Rightarrow> []
        | Some p \<Rightarrow>
            if color p \<noteq> turn v then []
            else map (\<lambda>t. \<lparr>from = (r, f), to = t\<rparr>)
                   (filter (\<lambda>t. isPseudoLegalMove v p (r, f) t
                               \<and> \<not> isKingInCheck v (turn v)
                                     (makeMoveOnBoard (board v) \<lparr>from = (r, f), to = t\<rparr>))
                      all_squares))
        all_squares)"

definition isCheckmate :: "validator \<Rightarrow> bool" where
  "isCheckmate v = (if \<not> isKingInCheck v (turn v) (board v) then False else safeMoves v = [])"

definition isStalemate :: "validator \<Rightarrow> bool" where
  "isStalemate v = (if isKingInCheck v (turn v) (board v) then False else safeMoves v = [])"

record material =
  count :: nat
  bishopsOnDark :: nat
  bishopsOnLight :: nat

definition count_piece :: "piece \<Rightarrow> int \<Rightarrow> int \<Rightarrow> material \<Rightarrow> material" where
  "count_piece p rank file m =
     (let m1 = m\<lparr>count := count m + 1\<rparr> in
      if type p = CHR ''b'' then
        (if (rank + file) mod 2 = 1 then m1\<lparr>bishopsOnDark := bishopsOnDark m1 + 1\<rparr>
         else m1\<lparr>bishopsOnLight := bishopsOnLight m1 + 1\<rparr>)
      else m1)"

text \<open>The counting loop of \<open>isInsufficientMaterial\<close>; the pair is \<open>pieces.white\<close>, \<open>pieces.black\<close>.\<close>

definition count_material :: "board \<Rightarrow> material \<times> material" where
  "count_material b =
     foldl (\<lambda>(w, k) (rank, file).
        case cell b rank file of
          None \<Rightarrow> (w, k)
        | Some p \<Rightarrow>
            if type p = CHR ''k'' then (w, k)
            else if color p = ''white'' then (count_piece p rank file w, k)
            else (w, count_piece p rank file k))
       (\<lparr>count = 0, bishopsOnDark = 0, bishopsOnLight = 0\<rparr>,
        \<lparr>count = 0, bishopsOnDark = 0, bishopsOnLight = 0\<rparr>)
       all_squares"

definition isInsufficientMaterial :: "validator \<Rightarrow> bool" where
  "isInsufficientMaterial v =
     (let (white, black) = count_material (board v) in
      if count white = 0 \<and> count black = 0 then True
      else if (count white = 1 \<and> count black = 0) \<or> (count white = 0 \<and> count black = 1) then True
      else if count white > 0 \<and> count black > 0
              \<and> bishopsOnDark white + bishopsOnLight white > 0
              \<and> bishopsOnDark black + bishopsOnLight black > 0 then
        (let whiteOnlyDark = (bishopsOnDark white > 0 \<and> bishopsOnLight white = 0);
             whiteOnlyLight = (bishopsOnLight white > 0 \<and> bishopsOnDark white = 0);
             blackOnlyDark = (bishopsOnDark black > 0 \<and> bishopsOnLight black = 0);
             blackOnlyLight = (bishopsOnLight black > 0 \<and> bishopsOnDark black = 0)
         in (whiteOnlyDark \<and> blackOnlyDark) \<or> (whiteOnlyLight \<and> blackOnlyLight))
      else False)"

text \<open>\<open>f.split(' ').slice(0, 3).join(' ')\<close>: the first three fields of a position string.\<close>

definition position_key :: "string \<Rightarrow> string" where
  "position_key f = join '' '' (take 3 (split CHR '' '' f))"

definition isThreefoldRepetition :: "validator \<Rightarrow> string list \<Rightarrow> bool" where
  "isThreefoldRepetition v fenHistory =
     (let currentPos = position_key (fen v);
          positions = currentPos # map position_key fenHistory;
          occurrences = length (filter (\<lambda>p. p = currentPos) positions)
      in occurrences \<ge> 3)"

definition isFiftyMoveRule :: "validator \<Rightarrow> bool" where
  "isFiftyMoveRule v = (halfMoveClock v \<ge> 100)"

datatype reason = checkmate | stalemate | insufficient_material | threefold_repetition | fifty_move_rule

text \<open>The object \<open>getGameState\<close> returns: the game over with result and reason, or not over with \<open>inCheck\<close>.\<close>

datatype game_state = GameOver string reason | NotOver bool

definition getGameState :: "validator \<Rightarrow> string list \<Rightarrow> game_state" where
  "getGameState v fenHistory =
     (if isCheckmate v then GameOver (if turn v = ''white'' then ''black'' else ''white'') checkmate
      else if isStalemate v then GameOver ''draw'' stalemate
      else if isInsufficientMaterial v then GameOver ''draw'' insufficient_material
      else if isThreefoldRepetition v fenHistory then GameOver ''draw'' threefold_repetition
      else if isFiftyMoveRule v then GameOver ''draw'' fifty_move_rule
      else NotOver (isKingInCheck v (turn v) (board v)))"

definition toSan :: "validator \<Rightarrow> move \<Rightarrow> string" where
  "toSan v m =
     (let fromRank = fst (from m); fromFile = snd (from m);
          toRank = fst (to m); toFile = snd (to m)
      in case cell (board v) fromRank fromFile of
           None \<Rightarrow> []
         | Some p \<Rightarrow>
             if type p = CHR ''k'' \<and> \<bar>toFile - fromFile\<bar> = 2
             then (if toFile > fromFile then ''O-O'' else ''O-O-O'')
             else
               (if type p \<noteq> CHR ''p'' then [toUpperCase (type p)] else [])
               @ (if type p = CHR ''p'' \<and> toFile \<noteq> fromFile then str_at FILES fromFile else [])
               @ (if cell (board v) toRank toFile \<noteq> None then ''x'' else [])
               @ str_at FILES toFile @ str_at RANKS toRank
               @ (if type p = CHR ''p'' \<and> (toRank = 0 \<or> toRank = 7) then ''=Q'' else []))"

definition getLegalMoves :: "validator \<Rightarrow> string list" where
  "getLegalMoves v = map (toSan v) (safeMoves v)"

section \<open>The game state store and the turn orchestrator\<close>

datatype status = idle | running | paused | error | waiting_director | game_over

datatype player = player1 | player2

datatype log_type = SYSTEM | TURN | DIRECTOR | ERROR | THOUGHT | HALLUCINATION | MOVE | TRASH

text \<open>The errors that reach the \<open>catch\<close> of \<open>executeTurn\<close>.\<close>

datatype ai_error = RequestFailed | NoMoveField | NoMoveInCorrection | RetryFailed reject

text \<open>What a log entry says; the wording of the source is not modelled.\<close>

datatype log_msg =
    GameOverMsg string reason
  | TurnMsg player
  | AdapterFailedMsg
  | OverrideMsg string
  | OverrideInvalidMsg reject
  | PromptInterceptedMsg
  | ThoughtMsg string
  | MaxRetriesMsg
  | HallucinationMsg reject
  | MoveMsg string
  | TrashMsg string
  | AIErrorMsg ai_error

text \<open>
  One record holds what the hook writes: the fields of the game state store (\<open>gs_\<close>), the
  state of the hook, the timer of the game loop (\<open>gameLoopRef\<close>: armed or not), the battle
  log, and the number of requests sent to the agents so far. The telemetry of the
  provider store and the hash of the position are left out.
\<close>

record orch =
  gs_fen :: string
  gs_turn :: string
  gs_moveNumber :: int
  gs_fullMoveNumber :: int
  gs_status :: status
  gs_gameResult :: "(string \<times> reason) option"
  gs_lastValidFen :: string
  gs_stateHistory :: "(string \<times> string \<times> int) list"
  isProcessing :: bool
  hallucinationRetries :: "player \<Rightarrow> int"
  directorOverride :: "(string \<times> player) option"
  directorPrompt :: "string option"
  activePlayerRef :: "player option"
  gameLoopRef :: bool
  logs :: "(log_type \<times> log_msg) list"
  requests :: nat

text \<open>
  The hook reads position, side to move and status as \<open>gameState.fen\<close>, \<open>gameState.turn\<close>
  and \<open>gameState.status\<close>, of a variable \<open>gameState\<close> that it takes out of the state of the
  store by destructuring. This is the object it expects there.
\<close>

record game_state_object =
  g_fen :: string
  g_turn :: string
  g_status :: status

text \<open>
  The keys of the state of the store (\<open>gameStateStore.js\<close>): its fields and its actions.
\<close>

definition store_keys :: "string list" where
  "store_keys =
     [''fen'', ''turn'', ''moveNumber'', ''castling'', ''enPassant'', ''halfMoveClock'',
      ''fullMoveNumber'', ''status'', ''lastValidFen'', ''stateHash'', ''gameResult'',
      ''stateHistory'', ''setGameState'', ''resetGame'', ''advanceTurn'', ''setGameStatus'',
      ''setGameResult'', ''rollback'', ''directorSetFen'', ''directorSetTurn'',
      ''directorSetMoveNumber'']"


datatype js_error = TypeError


text \<open>
  The answer of \<open>adapter.complete\<close>: the request fails, or it returns a text of which
  \<open>parseAIResponse\<close> extracts the fields \<open>MOVE\<close>, \<open>THOUGHT\<close> and \<open>TRASH\<close>, each \<open>None\<close> when
  it is missing or blank.
\<close>

datatype reply = Fault | Reply "string option" "string option" "string option"

text \<open>
  The collaborators: whether \<open>createAdapter\<close> raises for a player, the answer to the n-th
  request, and the configured ceiling \<open>maxHallucinationRetries\<close>.
\<close>

record env =
  adapterFails :: "player \<Rightarrow> bool"
  agent :: "nat \<Rightarrow> reply"
  maxHallucinationRetries :: int

definition addLog :: "log_type \<Rightarrow> log_msg \<Rightarrow> orch \<Rightarrow> orch" where
  "addLog t m s = s\<lparr>logs := logs s @ [(t, m)]\<rparr>"

text \<open>\<open>setGameState({ fen, turn })\<close> of the store; the history keeps its last 20 entries.\<close>

definition setGameState :: "string \<Rightarrow> string \<Rightarrow> orch \<Rightarrow> orch" where
  "setGameState f t s =
     (let s1 = s\<lparr>gs_fen := f, gs_turn := t\<rparr> in
      if f \<noteq> [] \<and> gs_lastValidFen s \<noteq> f then
        (let h = gs_stateHistory s @ [(f, if t = [] then gs_turn s else t, gs_moveNumber s)]
         in s1\<lparr>gs_stateHistory := drop (length h - 20) h\<rparr>)
      else s1)"

definition advanceTurn :: "orch \<Rightarrow> orch" where
  "advanceTurn s =
     (let nextTurn = (if gs_turn s = ''white'' then ''black'' else ''white'') in
      s\<lparr>gs_turn := nextTurn,
        gs_moveNumber := (if nextTurn = ''white'' then gs_moveNumber s + 1 else gs_moveNumber s),
        gs_fullMoveNumber :=
          (if nextTurn = ''white'' then gs_fullMoveNumber s + 1 else gs_fullMoveNumber s)\<rparr>)"

text \<open>The \<open>catch\<close> block of \<open>executeTurn\<close>.\<close>

definition catch_error :: "env \<Rightarrow> ai_error \<Rightarrow> orch \<Rightarrow> orch" where
  "catch_error e err s =
     (let s1 = addLog ERROR (AIErrorMsg err) s;
          s2 = (if maxHallucinationRetries e > 0 then s1\<lparr>gs_status := error\<rparr> else s1)
      in s2\<lparr>isProcessing := False\<rparr>)"

text \<open>The three statements that publish an accepted move.\<close>

definition publish_move :: "validator \<Rightarrow> string \<Rightarrow> orch \<Rightarrow> orch" where
  "publish_move v m s = addLog MOVE (MoveMsg m) (advanceTurn (setGameState (fen v) (turn v) s))"

text \<open>
  \<open>executeTurn\<close> is a callback of a React hook: it reads the values it captured when the
  hook last rendered (\<open>g\<close> for the variable \<open>gameState\<close>; \<open>c\<close> for the state of the hook: the
  counters, the override, the prompt) and its setters write to the current state (\<open>s\<close>).
  It is given here in parts, last part first: the corrective retry, the turn of the
  agent, the Director's override, the checks before them, and the construction of the
  validator from \<open>gameState.fen\<close>.
\<close>

definition correction_turn :: "env \<Rightarrow> player \<Rightarrow> validator \<Rightarrow> reject \<Rightarrow> orch \<Rightarrow> orch" where
  "correction_turn e playerId v r s =
     (let s1 = addLog HALLUCINATION (HallucinationMsg r) s;
          s2 = s1\<lparr>requests := requests s1 + 1\<rparr>
      in case agent e (requests s1) of
           Fault \<Rightarrow> catch_error e RequestFailed s2
         | Reply None thought trash \<Rightarrow> catch_error e NoMoveInCorrection s2
         | Reply (Some m) thought trash \<Rightarrow>
             (case validateMove v m of
                (Invalid r2, v2) \<Rightarrow> catch_error e (RetryFailed r2) s2
              | (_, v2) \<Rightarrow>
                  (let s3 = s2\<lparr>hallucinationRetries :=
                              (hallucinationRetries s2)(playerId := hallucinationRetries s2 playerId + 1)\<rparr>;
                       s4 = (case thought of None \<Rightarrow> s3 | Some t \<Rightarrow> addLog THOUGHT (ThoughtMsg t) s3)
                   in publish_move v2 m s4)))"

definition agent_turn :: "env \<Rightarrow> player \<Rightarrow> orch \<Rightarrow> validator \<Rightarrow> orch \<Rightarrow> orch" where
  "agent_turn e playerId c v s =
     (let s1 = (if directorPrompt c \<noteq> None
                then (addLog DIRECTOR PromptInterceptedMsg s)\<lparr>directorPrompt := None\<rparr> else s);
          s2 = s1\<lparr>requests := requests s1 + 1\<rparr>
      in case agent e (requests s1) of
           Fault \<Rightarrow> catch_error e RequestFailed s2
         | Reply mv thought trash \<Rightarrow>
             (let s3 = (case thought of None \<Rightarrow> s2 | Some t \<Rightarrow> addLog THOUGHT (ThoughtMsg t) s2)
              in case mv of
                   None \<Rightarrow> catch_error e NoMoveField s3
                 | Some m \<Rightarrow>
                     (case validateMove v m of
                        (Invalid r, v1) \<Rightarrow>
                          if hallucinationRetries c playerId \<ge> maxHallucinationRetries e
                          then (addLog ERROR MaxRetriesMsg s3)
                                 \<lparr>gs_status := waiting_director, isProcessing := False\<rparr>
                          else correction_turn e playerId v1 r s3
                      | (_, v1) \<Rightarrow>
                          (let s4 = s3\<lparr>hallucinationRetries := (hallucinationRetries s3)(playerId := 0)\<rparr>;
                               s5 = publish_move v1 m s4
                           in case trash of None \<Rightarrow> s5 | Some t \<Rightarrow> addLog TRASH (TrashMsg t) s5))))"

definition override_turn :: "string \<Rightarrow> validator \<Rightarrow> orch \<Rightarrow> orch" where
  "override_turn overrideMove v s =
     (let s1 = (addLog DIRECTOR (OverrideMsg overrideMove) s)\<lparr>directorOverride := None\<rparr>
      in case validateMove v overrideMove of
           (Invalid r, v1) \<Rightarrow> addLog ERROR (OverrideInvalidMsg r) s1
         | (_, v1) \<Rightarrow> publish_move v1 overrideMove s1)"

text \<open>The turn from the check for a finished game on, for the validator \<open>v\<close> just built.\<close>

definition checked_turn :: "env \<Rightarrow> player \<Rightarrow> orch \<Rightarrow> validator \<Rightarrow> orch \<Rightarrow> orch" where
  "checked_turn e playerId c v s =
     (case getGameState v [] of
        GameOver res rsn \<Rightarrow>
          (addLog SYSTEM (GameOverMsg res rsn)
             (s\<lparr>gs_status := game_over, gs_gameResult := Some (res, rsn)\<rparr>))
            \<lparr>isProcessing := False\<rparr>
      | NotOver inCheck \<Rightarrow>
          (let s1 = addLog TURN (TurnMsg playerId) s in
           if adapterFails e playerId then
             (addLog ERROR AdapterFailedMsg s1)\<lparr>gs_status := error, isProcessing := False\<rparr>
           else
             (case directorOverride c of
                None \<Rightarrow> agent_turn e playerId c v s1
              | Some (overrideMove, p) \<Rightarrow>
                  if p = playerId then override_turn overrideMove v s1
                  else agent_turn e playerId c v s1)))"

text \<open>
  The result is the error the call raises, if any, and the state it leaves.
  \<open>new ChessValidator(gameState.fen)\<close> is the first statement that reads \<open>gameState\<close>: a
  TypeError when it is \<open>undefined\<close>, and also when \<open>parseFen\<close> raises; nothing is written then.
\<close>

definition executeTurn ::
  "game_state_object option \<Rightarrow> orch \<Rightarrow> env \<Rightarrow> player \<Rightarrow> orch \<Rightarrow> js_error option \<times> orch" where
  "executeTurn g c e playerId s =
     (case g of
        None \<Rightarrow> (Some TypeError, s)
      | Some gs \<Rightarrow>
          (case new_validator (g_fen gs) of
             None \<Rightarrow> (Some TypeError, s)
           | Some v \<Rightarrow> (None, checked_turn e playerId c v s)))"

text \<open>
  \<open>gameLoop\<close> tests the captured \<open>gameState.status\<close> and the captured \<open>isProcessing\<close>, runs
  the turn, and tests the captured status again: when it is \<open>running\<close>, as it was at the
  first test, it arms the timer for the next pass.
\<close>

definition gameLoop :: "game_state_object option \<Rightarrow> orch \<Rightarrow> env \<Rightarrow> orch \<Rightarrow> js_error option \<times> orch" where
  "gameLoop g c e s =
     (case g of
        None \<Rightarrow> (Some TypeError, s)
      | Some gs \<Rightarrow>
          if g_status gs \<noteq> running then (None, s)
          else if isProcessing c then (None, s)
          else
            (let currentPlayerId = (if g_turn gs = ''white'' then player1 else player2);
                 s1 = s\<lparr>isProcessing := True, activePlayerRef := Some currentPlayerId\<rparr>
             in case executeTurn g c e currentPlayerId s1 of
                  (Some err, s2) \<Rightarrow> (Some err, s2)
                | (None, s2) \<Rightarrow>
                    if g_status gs = running then (None, s2\<lparr>gameLoopRef := True\<rparr>)
                    else (None, s2\<lparr>isProcessing := False\<rparr>)))"



section \<open>Positions used as examples\<close>

text \<open>White may castle on either side; nothing attacks the first rank.\<close>

definition castle_pos :: validator where
  "castle_pos = the (new_validator ''4k3/8/8/8/8/8/8/R3K2R white KQ - 0 1'')"

text \<open>A white pawn on its start square, the half-move clock at 5.\<close>

definition pawn_pos :: validator where
  "pawn_pos = the (new_validator ''4k3/8/8/8/8/8/4P3/4K3 white - - 5 1'')"

text \<open>White may castle king side, and a black rook on g8 attacks g1.\<close>

definition castle_into_check_pos :: validator where
  "castle_into_check_pos = the (new_validator ''4k1r1/8/8/8/8/8/8/4K2R white K - 0 1'')"

text \<open>The standard starting position, the side to move written as the validator writes it.\<close>

definition start_white_fen :: string where
  "start_white_fen = ''rnbqkbnr/pppppppp/8/8/8/8/PPPPPPPP/RNBQKBNR white KQkq - 0 1''"

text \<open>
  A sequence of moves played through \<open>validateMove\<close>; \<open>None\<close> when one of them is refused.
\<close>

fun play :: "validator \<Rightarrow> string list \<Rightarrow> validator option" where
  "play v [] = Some v"
| "play v (m # ms) =
     (case validateMove v m of (Invalid r, v1) \<Rightarrow> None | (_, v1) \<Rightarrow> play v1 ms)"

text \<open>
  The position after 1. f3 e5 2. g4 Qh4: white is mated, with one king on each side.
\<close>

definition fools_mate_fen :: string where
  "fools_mate_fen = ''rnb1kbnr/pppp1ppp/8/4p3/6Pq/5P2/PPPPP2P/RNBQKBNR white KQkq - 0 3''"

definition fools_mate_pos :: validator where
  "fools_mate_pos = the (new_validator fools_mate_fen)"

text \<open>
  Black to move, not in check and without a legal move: the king on h8 is stalemated by
  the queen on f7 and the king on g6.
\<close>

definition stalemate_fen :: string where
  "stalemate_fen = ''7k/5Q2/6K1/8/8/8/P7/8 black - - 0 1''"

definition stalemate_pos :: validator where
  "stalemate_pos = the (new_validator stalemate_fen)"

section \<open>Matches used as examples\<close>

text \<open>A position that is not over for the source: white to move with two pawns, black with one.\<close>

definition two_pawns_fen :: string where
  "two_pawns_fen = ''4k3/4p3/8/8/8/8/3PP3/4K3 white - - 0 1''"

definition two_pawns_pos :: validator where
  "two_pawns_pos = the (new_validator two_pawns_fen)"





text \<open>The answer to the corrective request holds a move that \<open>validateMove\<close> accepts.\<close>

definition retry_accepted :: "env \<Rightarrow> validator \<Rightarrow> nat \<Rightarrow> bool" where
  "retry_accepted e v n =
     (case agent e n of Reply (Some m) thought trash \<Rightarrow> valid (fst (validateMove v m)) | _ \<Rightarrow> False)"







section \<open>Well-formed positions and the repetition criterion\<close>

text \<open>The six piece letters.\<close>

definition piece_letters :: string where
  "piece_letters = ''pnbrqk''"

definition wf_piece :: "piece \<Rightarrow> bool" where
  "wf_piece p = (type p \<in> set piece_letters \<and> (color p = ''white'' \<or> color p = ''black''))"

definition wf_row :: "piece option list \<Rightarrow> bool" where
  "wf_row row = (length row = 8 \<and> list_all (\<lambda>x. case x of None \<Rightarrow> True | Some p \<Rightarrow> wf_piece p) row)"

definition wf_board :: "board \<Rightarrow> bool" where
  "wf_board b = (length b = 8 \<and> list_all wf_row b)"

text \<open>A field of the position string: not empty, and without a space.\<close>

definition wf_field :: "string \<Rightarrow> bool" where
  "wf_field s = (s \<noteq> [] \<and> CHR '' '' \<notin> set s)"

text \<open>A legal position as the validator holds it: eight ranks of eight squares with chess
  pieces of the two colours, the three text fields present, and a full-move number from 1.\<close>

definition wf_position :: "validator \<Rightarrow> bool" where
  "wf_position v =
     (wf_board (board v) \<and> wf_field (turn v) \<and> wf_field (castling v) \<and> wf_field (enPassant v)
      \<and> 1 \<le> fullMoveNumber v)"

text \<open>The position string of a validator, as \<open>applyMove\<close> builds it.\<close>

definition serialize :: "validator \<Rightarrow> string" where
  "serialize v =
     boardToFen (board v) (turn v) (castling v) (enPassant v) (halfMoveClock v) (fullMoveNumber v)"

text \<open>The board while \<open>parseFen\<close> reads rank \<open>r\<close>: the ranks before it filled, the others empty.\<close>

definition blank_from :: "board \<Rightarrow> nat \<Rightarrow> board" where
  "blank_from b r = take r b @ replicate (8 - r) (replicate 8 None)"

text \<open>The first field of the position string from rank \<open>r\<close> on.\<close>

definition rows_from :: "board \<Rightarrow> nat \<Rightarrow> string" where
  "rows_from b r = concat (map (boardToFen_rank b) (map int [r..<8]))"

text \<open>The specification's position for repetition: board, side to move, castling rights, en-passant target.\<close>

definition position_tuple :: "validator \<Rightarrow> board \<times> string \<times> string \<times> string" where
  "position_tuple v = (board v, turn v, castling v, enPassant v)"

text \<open>The specification's criterion: the tuple of the current position occurs three times or more among it and the history.\<close>

definition threefold_spec :: "validator \<Rightarrow> validator list \<Rightarrow> bool" where
  "threefold_spec v hist = (3 \<le> length (filter (\<lambda>w. position_tuple w = position_tuple v) (v # hist)))"

text \<open>What the source compares: board, side to move and castling rights.\<close>

definition position_triple :: "validator \<Rightarrow> board \<times> string \<times> string" where
  "position_triple v = (board v, turn v, castling v)"

text \<open>Black to move after e2-e4, with the en-passant target e3.\<close>

definition ep_pos :: validator where
  "ep_pos = the (new_validator ''4k3/8/8/8/4P3/8/8/4K3 black - e3 0 1'')"

text \<open>The same position without an en-passant target.\<close>

definition no_ep_pos :: validator where
  "no_ep_pos = the (new_validator ''4k3/8/8/8/4P3/8/8/4K3 black - - 0 1'')"

text \<open>
  \<open>validateMove\<close> accepts the notation \<open>san\<close> as the ordinary move \<open>mv\<close>: the checks it
  passes before it calls \<open>applyMove\<close>.
\<close>

definition accepted_as :: "validator \<Rightarrow> string \<Rightarrow> parsed_san \<Rightarrow> move \<Rightarrow> bool" where
  "accepted_as v san ps mv =
     (parseSan san = Some (ParsedMove ps)
      \<and> indexOf FILES (toFile ps) \<noteq> - 1 \<and> indexOf RANKS (toRank ps) \<noteq> - 1
      \<and> findPieceMove v (piece ps) (fromFile ps) (fromRank ps)
            (indexOf RANKS (toRank ps), indexOf FILES (toFile ps)) = Some mv
      \<and> \<not> isKingInCheck v (turn v) (makeMoveOnBoard (board v) mv))"

section \<open>Properties of the validator\<close>

subsection \<open>What an accepted move does to the validator\<close>

text \<open>
  After \<open>makeMoveOnBoard\<close> the square the piece left is empty. \<open>applyMove\<close> replaces
  \<open>this.board\<close> first, so \<open>updateCastlingRights\<close> and \<open>updateEnPassant\<close> find no piece
  there: the castling rights stay, the en-passant field becomes the sentinel. No
  statement of \<open>applyMove\<close> writes the half-move clock.
\<close>

lemma row_set_nth_same: "row_set row i None ! i = None"
  by (simp add: row_set_def nth_append)

lemma length_row_set: "i < length (row_set row i x)"
  by (simp add: row_set_def)

lemma cell_set_cell_same: "cell (set_cell b r c None) r c = None"
proof (cases "0 \<le> r \<and> r < int (length b) \<and> 0 \<le> c")
  case True
  then have "nat r < length b" by (simp add: nat_less_iff)
  then show ?thesis
    using True length_row_set [of "nat c" "b ! nat r" None]
    by (simp add: cell_def set_cell_def Let_def row_set_nth_same nat_less_iff)
next
  case False
  then show ?thesis
    by (auto simp: cell_def set_cell_def Let_def)
qed

lemma makeMoveOnBoard_from_empty:
  "cell (makeMoveOnBoard b m) (fst (from m)) (snd (from m)) = None"
  by (simp add: makeMoveOnBoard_def Let_def cell_set_cell_same)

lemma updateCastlingRights_after_move:
  "updateCastlingRights (v\<lparr>board := makeMoveOnBoard (board v) m\<rparr>) m = v\<lparr>board := makeMoveOnBoard (board v) m\<rparr>"
  by (simp add: updateCastlingRights_def Let_def makeMoveOnBoard_from_empty)

lemma updateEnPassant_after_move:
  "updateEnPassant (v\<lparr>board := makeMoveOnBoard (board v) m\<rparr>) m ps
   = v\<lparr>board := makeMoveOnBoard (board v) m, enPassant := ''-''\<rparr>"
  by (simp add: updateEnPassant_def Let_def makeMoveOnBoard_from_empty)

lemma applyMove_fields:
  "board (applyMove v m ps) = makeMoveOnBoard (board v) m"
  "castling (applyMove v m ps) = castling v"
  "enPassant (applyMove v m ps) = ''-''"
  "halfMoveClock (applyMove v m ps) = halfMoveClock v"
  "turn (applyMove v m ps) = (if turn v = ''white'' then ''black'' else ''white'')"
  "fullMoveNumber (applyMove v m ps) = (if turn v = ''white'' then fullMoveNumber v else fullMoveNumber v + 1)"
  by (simp_all add: applyMove_def Let_def updateCastlingRights_after_move updateEnPassant_after_move)

lemma validateCastling_result:
  "(\<exists>r. validateCastling v sd = Invalid r) \<or> (\<exists>mv. validateCastling v sd = ValidCastling mv sd)"
  by (simp add: validateCastling_def Let_def)

lemma validateMove_result:
  "(\<exists>r. validateMove v san = (Invalid r, v))
   \<or> (\<exists>mv sd. validateMove v san = (ValidCastling mv sd, v))
   \<or> (\<exists>ps mv cap. accepted_as v san ps mv
         \<and> validateMove v san = (ValidMove mv cap (promotion ps), applyMove v mv ps))"
proof (cases "parseSan san")
  case None
  then show ?thesis by (simp add: validateMove_def)
next
  case (Some pd)
  show ?thesis
  proof (cases pd)
    case (ParsedCastling sd)
    then show ?thesis
      using Some validateCastling_result [of v sd] by (auto simp: validateMove_def)
  next
    case (ParsedMove ps)
    show ?thesis
    proof (cases "fst (validateMove v san)")
      case (Invalid r)
      have "validateMove v san = (Invalid r, v)"
        using Invalid Some ParsedMove
        by (auto simp: validateMove_def Let_def split: if_splits option.splits)
      then show ?thesis by blast
    next
      case (ValidCastling mv sd)
      then have False
        using Some ParsedMove
        by (auto simp: validateMove_def Let_def split: if_splits option.splits)
      then show ?thesis ..
    next
      case (ValidMove mv cap pr)
      then have "accepted_as v san ps mv \<and> validateMove v san = (ValidMove mv cap (promotion ps), applyMove v mv ps)"
        using Some ParsedMove unfolding accepted_as_def
        by (auto simp: validateMove_def Let_def split: if_splits option.splits)
      then show ?thesis by blast
    qed
  qed
qed

lemma validateMove_halfMoveClock: "halfMoveClock (snd (validateMove v san)) = halfMoveClock v"
  using validateMove_result [of v san] by (auto simp: applyMove_fields)

lemma validateMove_castling: "castling (snd (validateMove v san)) = castling v"
  using validateMove_result [of v san] by (auto simp: applyMove_fields)

lemma validateMove_enPassant:
  "fst (validateMove v san) = ValidMove mv cap pr \<Longrightarrow> enPassant (snd (validateMove v san)) = ''-''"
  using validateMove_result [of v san] by (auto simp: applyMove_fields)

text \<open>
  An ordinary move that \<open>validateMove\<close> accepts leaves the mover's king unattacked in the
  position the validator then holds, and so does every move that \<open>getLegalMoves\<close> lists
  when it is made on the board. (A pawn attacks the en-passant square too; the new
  position has none, which only removes attacks.)
\<close>

lemma str_at_nonempty: "str_at s i \<noteq> []"
  by (simp add: str_at_def)

lemma sentinel_is_no_square: "''-'' \<noteq> str_at FILES f @ str_at RANKS r"
proof
  assume e: "''-'' = str_at FILES f @ str_at RANKS r"
  obtain a as where a: "str_at FILES f = a # as" using str_at_nonempty by (cases "str_at FILES f") auto
  obtain c cs where c: "str_at RANKS r = c # cs" using str_at_nonempty by (cases "str_at RANKS r") auto
  from e a c show False by simp
qed

lemma isPathClear_board: "board w = board w' \<Longrightarrow> isPathClear w a b = isPathClear w' a b"
  by (simp add: isPathClear_def)

lemma isPseudoLegalMove_without_target:
  assumes "board w = board w'" "enPassant w = ''-''" "isPseudoLegalMove w p a b"
  shows "isPseudoLegalMove w' p a b"
  using assms(3) sentinel_is_no_square
  unfolding isPseudoLegalMove_def isPathClear_board [OF assms(1)] assms(1) assms(2) Let_def
  by (auto split: if_splits)

lemma isSquareAttacked_without_target:
  assumes "board w = board w'" "enPassant w = ''-''" "isSquareAttacked w sq c"
  shows "isSquareAttacked w' sq c"
proof -
  from assms(3) obtain r f p where
    m: "(r, f) \<in> set all_squares" and p: "cell (board w) r f = Some p" and
    a: "color p = c" "isPseudoLegalMove w p (r, f) sq"
    unfolding isSquareAttacked_def list_ex_iff by (auto split: option.splits)
  have "isPseudoLegalMove w' p (r, f) sq"
    using assms(1,2) a(2) by (rule isPseudoLegalMove_without_target)
  then show ?thesis
    unfolding isSquareAttacked_def list_ex_iff
    using m p a(1) assms(1) by (intro bexI [of _ "(r, f)"]) simp_all
qed

lemma isKingInCheck_without_target:
  assumes "enPassant w = ''-''" "isKingInCheck w c b"
  shows "isKingInCheck w' c b"
proof -
  from assms(2) obtain kingPos where
    k: "findKingOnBoard c b = Some kingPos" and
    a: "isSquareAttacked (w\<lparr>board := b\<rparr>) kingPos (if c = ''white'' then ''black'' else ''white'')"
    unfolding isKingInCheck_def by (cases "findKingOnBoard c b") simp_all
  have "isSquareAttacked (w'\<lparr>board := b\<rparr>) kingPos (if c = ''white'' then ''black'' else ''white'')"
  proof (rule isSquareAttacked_without_target [OF _ _ a])
    show "board (w\<lparr>board := b\<rparr>) = board (w'\<lparr>board := b\<rparr>)" by simp
    show "enPassant (w\<lparr>board := b\<rparr>) = ''-''" using assms(1) by simp
  qed
  then show ?thesis
    unfolding isKingInCheck_def by (simp add: k)
qed

lemma validateMove_king_safe:
  assumes "fst (validateMove v san) = ValidMove mv cap pr"
  shows "\<not> isKingInCheck (snd (validateMove v san)) (turn v) (board (snd (validateMove v san)))"
proof -
  from validateMove_result [of v san] assms obtain ps where
    a: "accepted_as v san ps mv" and r: "snd (validateMove v san) = applyMove v mv ps"
    by auto
  from a have safe: "\<not> isKingInCheck v (turn v) (makeMoveOnBoard (board v) mv)"
    by (simp add: accepted_as_def)
  show ?thesis
    using safe isKingInCheck_without_target [of "applyMove v mv ps" "turn v" "makeMoveOnBoard (board v) mv" v]
    by (auto simp: r applyMove_fields)
qed

lemma safeMoves_safe:
  "m \<in> set (safeMoves v) \<Longrightarrow> \<not> isKingInCheck v (turn v) (makeMoveOnBoard (board v) m)"
  unfolding safeMoves_def
  by (auto split: option.splits if_splits)

lemma all_squares_on_board: "(r, f) \<in> set all_squares \<Longrightarrow> 0 \<le> r \<and> r < 8 \<and> 0 \<le> f \<and> f < 8"
  by (auto simp: all_squares_def ranks8_def)

lemma findPieceMove_Some:
  assumes "findPieceMove v pt ff fr sq = Some m"
  shows "from m \<in> set all_squares \<and> to m = sq"
proof -
  have c: "m' \<in> set (candidates v pt ff fr sq) \<Longrightarrow> from m' \<in> set all_squares \<and> to m' = sq" for m'
    by (auto simp: candidates_def)
  have "m \<in> set (candidates v pt ff fr sq)"
  proof (cases "candidates v pt ff fr sq")
    case Nil
    then show ?thesis using assms by (simp add: findPieceMove_def)
  next
    case (Cons x xs)
    show ?thesis
    proof (cases xs)
      case Nil
      then show ?thesis using assms Cons by (simp add: findPieceMove_def)
    next
      case (Cons y ys)
      then show ?thesis
        using assms \<open>candidates v pt ff fr sq = x # xs\<close>
        by (auto simp: findPieceMove_def find_Some_iff nth_Cons' split: option.splits if_splits)
    qed
  qed
  then show ?thesis by (rule c)
qed

lemma index_of_less: "index_of s c = Some i \<Longrightarrow> i < length s"
  by (induction s arbitrary: i) (auto split: if_splits)

lemma indexOf_range: "indexOf s c \<noteq> - 1 \<Longrightarrow> 0 \<le> indexOf s c \<and> indexOf s c < int (length s)"
  by (auto simp: indexOf_def dest: index_of_less split: option.splits)

subsection \<open>The claims about accepted moves\<close>


text \<open>
  Claim C10. A castling move that \<open>validateMove\<close> accepts is not applied: the call leaves
  the validator (board, position string, side to move, castling rights and the rest)
  as it was.
\<close>

theorem castling_not_applied:
  "valid (fst (validateMove v san)) \<Longrightarrow> san = ''O-O'' \<or> san = ''O-O-O''
   \<Longrightarrow> snd (validateMove v san) = v"
  by (auto simp: validateMove_def parseSan_def)

theorem castling_not_applied_witness:
  "new_validator ''4k3/8/8/8/8/8/8/R3K2R white KQ - 0 1'' = Some castle_pos
   \<and> valid (fst (validateMove castle_pos ''O-O''))
   \<and> snd (validateMove castle_pos ''O-O'') = castle_pos
   \<and> valid (fst (validateMove castle_pos ''O-O-O''))
   \<and> snd (validateMove castle_pos ''O-O-O'') = castle_pos"
proof -
  have c: "new_validator ''4k3/8/8/8/8/8/8/R3K2R white KQ - 0 1'' = Some castle_pos"
    unfolding castle_pos_def by code_simp
  have k: "valid (fst (validateMove castle_pos ''O-O''))"
    by code_simp
  have q: "valid (fst (validateMove castle_pos ''O-O-O''))"
    by code_simp
  show ?thesis
    using c k q castling_not_applied [OF k] castling_not_applied [OF q] by simp
qed

text \<open>
  Claim C3, at a failing input. With the half-move clock at 5, the pawn move e4 is
  accepted and the clock of the new position is still 5, where the claim says 0; the king
  move Kd1 is accepted and the clock is still 5, where the claim says 6.
\<close>

theorem halfMoveClock_not_updated:
  "new_validator ''4k3/8/8/8/8/8/4P3/4K3 white - - 5 1'' = Some pawn_pos
   \<and> fst (validateMove pawn_pos ''e4'') = ValidMove \<lparr>from = (6, 4), to = (4, 4)\<rparr> False None
   \<and> halfMoveClock (snd (validateMove pawn_pos ''e4'')) = 5
   \<and> fen (snd (validateMove pawn_pos ''e4'')) = ''4k3/8/8/8/4P3/8/8/4K3 black - - 5 1''
   \<and> fst (validateMove pawn_pos ''Kd1'') = ValidMove \<lparr>from = (7, 4), to = (7, 3)\<rparr> False None
   \<and> halfMoveClock (snd (validateMove pawn_pos ''Kd1'')) = 5"
  unfolding pawn_pos_def by code_simp

text \<open>
  Claim C4, at a failing input. The two-square pawn advance e4 is accepted and the
  en-passant field of the new position is the sentinel, where the claim says e3.
\<close>

theorem enPassant_not_set:
  "new_validator ''4k3/8/8/8/8/8/4P3/4K3 white - - 5 1'' = Some pawn_pos
   \<and> fst (validateMove pawn_pos ''e4'') = ValidMove \<lparr>from = (6, 4), to = (4, 4)\<rparr> False None
   \<and> enPassant (snd (validateMove pawn_pos ''e4'')) = ''-''"
  unfolding pawn_pos_def by code_simp

text \<open>
  Claim C1, at a failing input. King-side castling is accepted although the square the
  king lands on is attacked: on the board with the returned move made, the white king is
  in check.
\<close>

theorem castling_into_check_accepted:
  "new_validator ''4k1r1/8/8/8/8/8/8/4K2R white K - 0 1'' = Some castle_into_check_pos
   \<and> fst (validateMove castle_into_check_pos ''O-O'')
       = ValidCastling \<lparr>from = (7, 4), to = (7, 6)\<rparr> Kingside
   \<and> isKingInCheck castle_into_check_pos ''white''
       (makeMoveOnBoard (board castle_into_check_pos) \<lparr>from = (7, 4), to = (7, 6)\<rparr>)"
  unfolding castle_into_check_pos_def by code_simp


text \<open>The failing inputs of C1, C3 and C4 in short.\<close>

theorem castling_into_check_accepted_witness:
  "valid (fst (validateMove castle_into_check_pos ''O-O''))
   \<and> isKingInCheck castle_into_check_pos ''white''
       (makeMoveOnBoard (board castle_into_check_pos) \<lparr>from = (7, 4), to = (7, 6)\<rparr>)"
  using castling_into_check_accepted by (simp add: valid_def)

theorem halfMoveClock_not_updated_witness:
  "halfMoveClock (snd (validateMove pawn_pos ''e4'')) \<noteq> 0
   \<and> halfMoveClock (snd (validateMove pawn_pos ''Kd1'')) \<noteq> halfMoveClock pawn_pos + 1"
proof -
  have "halfMoveClock pawn_pos = 5"
    unfolding pawn_pos_def by code_simp
  then show ?thesis
    using halfMoveClock_not_updated by simp
qed

theorem enPassant_not_set_witness:
  "enPassant (snd (validateMove pawn_pos ''e4'')) \<noteq> ''e3''"
  using enPassant_not_set by simp

subsection \<open>Terminal state\<close>

text \<open>
  \<open>isCheckmate\<close> and \<open>isStalemate\<close> try every target square for every piece of the side to
  move, the square the piece stands on included. For the king that square passes
  \<open>isPseudoLegalMove\<close>, and \<open>makeMoveOnBoard\<close> then empties it: no king is left on the test
  board and \<open>isKingInCheck\<close> answers false. So whenever the side to move has just one king,
  neither of the two is reported.
\<close>

lemma find_Some_mem: "find P xs = Some x \<Longrightarrow> x \<in> set xs \<and> P x"
  by (induction xs) (auto split: if_splits)

lemma findKing_Some:
  assumes "findKingOnBoard t b = Some k"
  shows "k \<in> set all_squares"
    and "\<exists>p. cell b (fst k) (snd k) = Some p \<and> type p = CHR ''k'' \<and> color p = t"
proof -
  from assms have m: "k \<in> set all_squares"
      and P: "(\<lambda>(r, f). case cell b r f of None \<Rightarrow> False | Some p \<Rightarrow> type p = CHR ''k'' \<and> color p = t) k"
    unfolding findKingOnBoard_def by (auto dest: find_Some_mem)
  from m show "k \<in> set all_squares" .
  from P show "\<exists>p. cell b (fst k) (snd k) = Some p \<and> type p = CHR ''k'' \<and> color p = t"
    by (cases k) (auto split: option.splits)
qed

lemma king_own_square_pseudo_legal:
  "type p = CHR ''k'' \<Longrightarrow> isPseudoLegalMove v p k k"
  by (simp add: isPseudoLegalMove_def)

lemma king_own_square_safe:
  assumes "findKingOnBoard (turn v) (board v) = Some k"
    and "findKingOnBoard (turn v) (makeMoveOnBoard (board v) \<lparr>from = k, to = k\<rparr>) = None"
  shows "\<lparr>from = k, to = k\<rparr> \<in> set (safeMoves v)"
proof -
  obtain r f where k: "k = (r, f)" by (cases k)
  from findKing_Some [OF assms(1)] obtain p where
      mem: "(r, f) \<in> set all_squares" and c: "cell (board v) r f = Some p"
      and ty: "type p = CHR ''k''" and co: "color p = turn v"
    unfolding k by auto
  have safe: "\<not> isKingInCheck v (turn v) (makeMoveOnBoard (board v) \<lparr>from = (r, f), to = (r, f)\<rparr>)"
    using assms(2) unfolding k by (simp add: isKingInCheck_def)
  have ps: "isPseudoLegalMove v p (r, f) (r, f)"
    using ty by (rule king_own_square_pseudo_legal)
  have "\<lparr>from = (r, f), to = (r, f)\<rparr>
          \<in> set (map (\<lambda>t. \<lparr>from = (r, f), to = t\<rparr>)
                 (filter (\<lambda>t. isPseudoLegalMove v p (r, f) t
                             \<and> \<not> isKingInCheck v (turn v)
                                   (makeMoveOnBoard (board v) \<lparr>from = (r, f), to = t\<rparr>))
                    all_squares))"
    using mem ps safe by simp
  then show ?thesis
    unfolding safeMoves_def k using mem c co
    by (auto intro!: bexI [of _ "(r, f)"])
qed

lemma single_king_never_mated:
  assumes "findKingOnBoard (turn v) (board v) = Some k"
    and "findKingOnBoard (turn v) (makeMoveOnBoard (board v) \<lparr>from = k, to = k\<rparr>) = None"
  shows "\<not> isCheckmate v" and "\<not> isStalemate v"
    and "getGameState v h \<noteq> GameOver w checkmate" and "getGameState v h \<noteq> GameOver w stalemate"
proof -
  from king_own_square_safe [OF assms] have ne: "safeMoves v \<noteq> []" by auto
  show a: "\<not> isCheckmate v" using ne by (simp add: isCheckmate_def)
  show b: "\<not> isStalemate v" using ne by (simp add: isStalemate_def)
  show "getGameState v h \<noteq> GameOver w checkmate"
    using a b by (simp add: getGameState_def)
  show "getGameState v h \<noteq> GameOver w stalemate"
    using a b by (simp add: getGameState_def)
qed

text \<open>
  The position string with which the store starts a match writes the side to move as
  \<open>w\<close>, which is the colour of no piece: \<open>getGameState\<close> reports the starting position as a
  stalemate.
\<close>

lemma standard_start_is_over:
  "map_option (\<lambda>v. getGameState v []) (new_validator INITIAL_FEN) = Some (GameOver ''draw'' stalemate)"
  by code_simp

lemma fools_mate_played:
  "play (the (new_validator start_white_fen)) [''f3'', ''e5'', ''g4'', ''Qh4''] = Some fools_mate_pos"
  unfolding fools_mate_pos_def by code_simp

lemma fools_mate_parsed: "new_validator fools_mate_fen = Some fools_mate_pos"
  unfolding fools_mate_pos_def by code_simp

lemma fools_mate_in_check:
  "isKingInCheck fools_mate_pos (turn fools_mate_pos) (board fools_mate_pos)"
  unfolding fools_mate_pos_def by code_simp

lemma fools_mate_safeMoves:
  "safeMoves fools_mate_pos
     = [\<lparr>from = (7, 3), to = (7, 4)\<rparr>, \<lparr>from = (7, 4), to = (6, 3)\<rparr>,
        \<lparr>from = (7, 4), to = (6, 4)\<rparr>, \<lparr>from = (7, 4), to = (7, 3)\<rparr>,
        \<lparr>from = (7, 4), to = (7, 4)\<rparr>, \<lparr>from = (7, 4), to = (7, 5)\<rparr>]"
  unfolding fools_mate_pos_def by code_simp

lemma fools_mate_targets:
  "map_option color (cell (board fools_mate_pos) 7 4) = Some ''white''"
  "map_option color (cell (board fools_mate_pos) 6 3) = Some ''white''"
  "map_option color (cell (board fools_mate_pos) 6 4) = Some ''white''"
  "map_option color (cell (board fools_mate_pos) 7 3) = Some ''white''"
  "map_option color (cell (board fools_mate_pos) 7 5) = Some ''white''"
  unfolding fools_mate_pos_def by code_simp+

lemma fools_mate_no_draw:
  "\<not> isInsufficientMaterial fools_mate_pos"
  "\<not> isThreefoldRepetition fools_mate_pos []"
  "\<not> isFiftyMoveRule fools_mate_pos"
  unfolding fools_mate_pos_def by code_simp+

lemma stalemate_parsed: "new_validator stalemate_fen = Some stalemate_pos"
  unfolding stalemate_pos_def by code_simp

lemma stalemate_not_in_check:
  "\<not> isKingInCheck stalemate_pos (turn stalemate_pos) (board stalemate_pos)"
  unfolding stalemate_pos_def by code_simp

lemma stalemate_safeMoves: "safeMoves stalemate_pos = [\<lparr>from = (0, 7), to = (0, 7)\<rparr>]"
  unfolding stalemate_pos_def by code_simp

lemma stalemate_no_draw:
  "\<not> isInsufficientMaterial stalemate_pos"
  "\<not> isThreefoldRepetition stalemate_pos []"
  "\<not> isFiftyMoveRule stalemate_pos"
  unfolding stalemate_pos_def by code_simp+

text \<open>
  Claim C5 fails on the code. After 1. f3 e5 2. g4 Qh4, played through \<open>validateMove\<close>
  from the starting position, the white king is in check and white has no legal move:
  a checkmate, won by black. \<open>getGameState\<close> reports a game that is not over, with the king
  in check, because \<open>isCheckmate\<close> is false: it counts six moves as safe, each onto a
  square that holds a white piece (the queen takes the king's square, or the king moves
  onto the pawns on d2 and e2, the queen, its own square, the bishop). In the same way the
  stalemate of the black king on h8 is reported as a game that is not over.
\<close>

theorem checkmate_not_reported:
  "play (the (new_validator start_white_fen)) [''f3'', ''e5'', ''g4'', ''Qh4''] = Some fools_mate_pos
   \<and> new_validator fools_mate_fen = Some fools_mate_pos
   \<and> isKingInCheck fools_mate_pos (turn fools_mate_pos) (board fools_mate_pos)
   \<and> safeMoves fools_mate_pos
       = [\<lparr>from = (7, 3), to = (7, 4)\<rparr>, \<lparr>from = (7, 4), to = (6, 3)\<rparr>,
          \<lparr>from = (7, 4), to = (6, 4)\<rparr>, \<lparr>from = (7, 4), to = (7, 3)\<rparr>,
          \<lparr>from = (7, 4), to = (7, 4)\<rparr>, \<lparr>from = (7, 4), to = (7, 5)\<rparr>]
   \<and> list_all (\<lambda>m. map_option color (cell (board fools_mate_pos) (fst (to m)) (snd (to m)))
                       = Some ''white'') (safeMoves fools_mate_pos)
   \<and> isCheckmate fools_mate_pos = False
   \<and> getGameState fools_mate_pos [] = NotOver True
   \<and> getGameState fools_mate_pos [] \<noteq> GameOver ''black'' checkmate
   \<and> new_validator stalemate_fen = Some stalemate_pos
   \<and> isKingInCheck stalemate_pos (turn stalemate_pos) (board stalemate_pos) = False
   \<and> safeMoves stalemate_pos = [\<lparr>from = (0, 7), to = (0, 7)\<rparr>]
   \<and> isStalemate stalemate_pos = False
   \<and> getGameState stalemate_pos [] = NotOver False"
proof -
  have e: "list_all (\<lambda>m. map_option color (cell (board fools_mate_pos) (fst (to m)) (snd (to m)))
                       = Some ''white'') (safeMoves fools_mate_pos)"
    using fools_mate_targets by (simp add: fools_mate_safeMoves)
  have f: "isCheckmate fools_mate_pos = False"
    by (simp add: isCheckmate_def fools_mate_safeMoves)
  have g: "getGameState fools_mate_pos [] = NotOver True"
    by (simp add: getGameState_def isCheckmate_def isStalemate_def fools_mate_safeMoves
          fools_mate_in_check fools_mate_no_draw)
  have l: "isStalemate stalemate_pos = False"
    by (simp add: isStalemate_def stalemate_safeMoves)
  have m: "getGameState stalemate_pos [] = NotOver False"
    by (simp add: getGameState_def isCheckmate_def isStalemate_def stalemate_safeMoves
          stalemate_not_in_check stalemate_no_draw)
  show ?thesis
    using fools_mate_played fools_mate_parsed fools_mate_in_check fools_mate_safeMoves e f g
      stalemate_parsed stalemate_not_in_check stalemate_safeMoves l m
    by (simp only: simp_thms game_state.simps)
qed

theorem checkmate_not_reported_witness:
  "getGameState fools_mate_pos [] = NotOver True \<and> getGameState stalemate_pos [] = NotOver False"
  using checkmate_not_reported by (simp only: simp_thms)

section \<open>Properties of the orchestrator\<close>

subsection \<open>The hook as it is written\<close>





subsection \<open>The body of a turn\<close>

lemma validateMove_Invalid:
  "fst (validateMove v m) = Invalid r \<Longrightarrow> validateMove v m = (Invalid r, v)"
  by (auto simp: validateMove_def Let_def split: option.splits parsed.splits if_splits)

lemma validateMove_valid_cases:
  assumes "valid (fst (validateMove v m))"
  obtains mv cap pr v1 where "validateMove v m = (ValidMove mv cap pr, v1)"
  | mv sd v1 where "validateMove v m = (ValidCastling mv sd, v1)"
  using assms by (cases "validateMove v m"; cases "fst (validateMove v m)") (auto simp: valid_def)

lemma requests_addLog [simp]: "requests (addLog t m s) = requests s"
  by (simp add: addLog_def)

lemma status_addLog [simp]: "gs_status (addLog t m s) = gs_status s"
  by (simp add: addLog_def)

lemma retries_addLog [simp]: "hallucinationRetries (addLog t m s) = hallucinationRetries s"
  by (simp add: addLog_def)

lemma catch_error_fields [simp]:
  "requests (catch_error e err s) = requests s"
  "hallucinationRetries (catch_error e err s) = hallucinationRetries s"
  "gs_status (catch_error e err s) = (if maxHallucinationRetries e > 0 then error else gs_status s)"
  by (simp_all add: catch_error_def Let_def)

lemma publish_move_fields [simp]:
  "requests (publish_move v m s) = requests s"
  "hallucinationRetries (publish_move v m s) = hallucinationRetries s"
  "gs_status (publish_move v m s) = gs_status s"
  by (simp_all add: publish_move_def advanceTurn_def setGameState_def Let_def)

text \<open>A turn on a position that is not over, with a working adapter and no override for the player, is the turn of the agent.\<close>

lemma checked_turn_agent:
  assumes "getGameState v [] = NotOver chk"
    and "\<not> adapterFails e p"
    and "map_option snd (directorOverride c) \<noteq> Some p"
  shows "checked_turn e p c v s = agent_turn e p c v (addLog TURN (TurnMsg p) s)"
proof -
  have ov: "(case directorOverride c of None \<Rightarrow> agent_turn e p c v s' | Some (om, q) \<Rightarrow>
               if q = p then override_turn om v s' else agent_turn e p c v s') = agent_turn e p c v s'" for s'
    using assms(3) by (auto split: option.splits)
  show ?thesis
    using assms(1,2) ov by (simp add: checked_turn_def Let_def)
qed

text \<open>
  With the counter at the ceiling, a refused first move sets the status
  \<open>waiting_director\<close> after the one request.
\<close>

lemma ceiling_escalates:
  assumes "getGameState v [] = NotOver chk"
    and "\<not> adapterFails e p"
    and "map_option snd (directorOverride c) \<noteq> Some p"
    and "agent e (requests s) = Reply (Some m) th tr"
    and "fst (validateMove v m) = Invalid r"
    and "maxHallucinationRetries e \<le> hallucinationRetries c p"
  shows "gs_status (checked_turn e p c v s) = waiting_director"
    and "requests (checked_turn e p c v s) = requests s + 1"
    and "hallucinationRetries (checked_turn e p c v s) = hallucinationRetries s"
proof -
  have vm: "validateMove v m = (Invalid r, v)"
    using assms(5) by (rule validateMove_Invalid)
  note ex = checked_turn_agent [OF assms(1,2,3)]
  show "gs_status (checked_turn e p c v s) = waiting_director"
    using assms(4,6) vm unfolding ex agent_turn_def
    by (auto simp: Let_def split: option.splits)
  show "requests (checked_turn e p c v s) = requests s + 1"
    using assms(4,6) vm unfolding ex agent_turn_def
    by (auto simp: Let_def split: option.splits)
  show "hallucinationRetries (checked_turn e p c v s) = hallucinationRetries s"
    using assms(4,6) vm unfolding ex agent_turn_def
    by (auto simp: Let_def split: option.splits)
qed

text \<open>
  Below the ceiling, a refused first move followed by a corrective answer without an
  accepted move sets the status \<open>error\<close>, after the two requests, and changes no counter.
\<close>

lemma failed_retry_gives_error:
  assumes "getGameState v [] = NotOver chk"
    and "\<not> adapterFails e p"
    and "map_option snd (directorOverride c) \<noteq> Some p"
    and "agent e (requests s) = Reply (Some m) th tr"
    and "fst (validateMove v m) = Invalid r"
    and "0 \<le> hallucinationRetries c p"
    and "hallucinationRetries c p < maxHallucinationRetries e"
    and "\<not> retry_accepted e v (requests s + 1)"
  shows "gs_status (checked_turn e p c v s) = error"
    and "requests (checked_turn e p c v s) = requests s + 2"
    and "hallucinationRetries (checked_turn e p c v s) = hallucinationRetries s"
proof -
  have vm: "validateMove v m = (Invalid r, v)"
    using assms(5) by (rule validateMove_Invalid)
  note ex = checked_turn_agent [OF assms(1,2,3)]
  from assms(6,7) have pos: "0 < maxHallucinationRetries e" by simp
  define s1 where "s1 = (if directorPrompt c \<noteq> None
                then (addLog DIRECTOR PromptInterceptedMsg (addLog TURN (TurnMsg p) s))\<lparr>directorPrompt := None\<rparr>
                else (addLog TURN (TurnMsg p) s))\<lparr>requests := requests s + 1\<rparr>"
  define s3 where "s3 = (case th of None \<Rightarrow> s1 | Some t \<Rightarrow> addLog THOUGHT (ThoughtMsg t) s1)"
  have r3: "requests s3 = requests s + 1" "hallucinationRetries s3 = hallucinationRetries s"
    unfolding s3_def s1_def by (auto split: option.splits)
  have agt: "agent_turn e p c v (addLog TURN (TurnMsg p) s) = correction_turn e p v r s3"
    using assms(4,7) vm unfolding agent_turn_def s3_def s1_def
    by (auto simp: Let_def split: option.splits)
  show "gs_status (checked_turn e p c v s) = error"
    unfolding ex agt correction_turn_def using assms(8) pos r3
    by (auto simp: Let_def retry_accepted_def valid_def
             split: option.splits reply.splits validation.splits prod.splits)
  show "requests (checked_turn e p c v s) = requests s + 2"
    unfolding ex agt correction_turn_def using assms(8) pos r3
    by (auto simp: Let_def retry_accepted_def valid_def
             split: option.splits reply.splits validation.splits prod.splits)
  show "hallucinationRetries (checked_turn e p c v s) = hallucinationRetries s"
    unfolding ex agt correction_turn_def using assms(8) pos r3
    by (auto simp: Let_def retry_accepted_def valid_def
             split: option.splits reply.splits validation.splits prod.splits)
qed

text \<open>
  Below the ceiling, a refused first move followed by an accepted corrective move adds
  one to the counter of the player.
\<close>

lemma corrected_turn_increments:
  assumes "getGameState v [] = NotOver chk"
    and "\<not> adapterFails e p"
    and "map_option snd (directorOverride c) \<noteq> Some p"
    and "agent e (requests s) = Reply (Some m) th tr"
    and "fst (validateMove v m) = Invalid r"
    and "hallucinationRetries c p < maxHallucinationRetries e"
    and "retry_accepted e v (requests s + 1)"
  shows "hallucinationRetries (checked_turn e p c v s) p = hallucinationRetries s p + 1"
proof -
  have vm: "validateMove v m = (Invalid r, v)"
    using assms(5) by (rule validateMove_Invalid)
  note ex = checked_turn_agent [OF assms(1,2,3)]
  from assms(7) obtain m2 th2 tr2 where r2: "agent e (Suc (requests s)) = Reply (Some m2) th2 tr2"
      and v2: "valid (fst (validateMove v m2))"
    by (auto simp: retry_accepted_def split: reply.splits option.splits)
  from v2 show ?thesis
  proof (cases rule: validateMove_valid_cases)
    case (1 mv cap pr v1)
    then show ?thesis
      unfolding ex agent_turn_def correction_turn_def using assms(4,6) vm r2
      by (auto simp: Let_def split: option.splits)
  next
    case (2 mv sd v1)
    then show ?thesis
      unfolding ex agent_turn_def correction_turn_def using assms(4,6) vm r2
      by (auto simp: Let_def split: option.splits)
  qed
qed

text \<open>
  Every pass of \<open>gameLoop\<close> that starts a turn arms the timer, whatever the turn did to
  the status: the test after the turn reads the status the loop captured.
\<close>

lemma gameLoop_arms_timer:
  assumes "g_status gs = running" and "\<not> isProcessing c" and "new_validator (g_fen gs) = Some v"
  shows "fst (gameLoop (Some gs) c e s) = None" and "gameLoopRef (snd (gameLoop (Some gs) c e s))"
  using assms by (simp_all add: gameLoop_def executeTurn_def Let_def)

subsection \<open>The claims about the orchestrator\<close>


lemma two_pawns_not_over: "getGameState two_pawns_pos [] = NotOver False"
  unfolding two_pawns_pos_def by code_simp










section \<open>Properties of the position string\<close>

lemma piece_letter_case:
  assumes "t \<in> set piece_letters"
  shows "toLowerCase (toUpperCase t) = t \<and> toUpperCase (toUpperCase t) = toUpperCase t
    \<and> toLowerCase t = t \<and> t \<noteq> toUpperCase t
    \<and> \<not> is_digit (toUpperCase t) \<and> \<not> is_digit t
    \<and> toUpperCase t \<noteq> CHR ''/'' \<and> t \<noteq> CHR ''/'' \<and> toUpperCase t \<noteq> CHR '' '' \<and> t \<noteq> CHR '' ''"
proof -
  from assms have "t = CHR ''p'' \<or> t = CHR ''n'' \<or> t = CHR ''b'' \<or> t = CHR ''r'' \<or> t = CHR ''q'' \<or> t = CHR ''k''"
    by (simp add: piece_letters_def)
  then show ?thesis
    by (elim disjE)
       (simp_all add: toUpperCase_def toLowerCase_def lower_letters_def upper_letters_def
          is_digit_def digit_chars_def)
qed

lemma piece_roundtrip:
  assumes "wf_piece p"
  shows "piece_of_char (char_of_piece p) = p" "\<not> is_digit (char_of_piece p)"
    "char_of_piece p \<noteq> CHR ''/''" "char_of_piece p \<noteq> CHR '' ''"
proof -
  from assms have t: "type p \<in> set piece_letters" and c: "color p = ''white'' \<or> color p = ''black''"
    by (auto simp: wf_piece_def)
  note l = piece_letter_case [OF t]
  show "piece_of_char (char_of_piece p) = p"
  proof (rule piece.equality)
    show "type (piece_of_char (char_of_piece p)) = type p"
      using c by (auto simp: piece_of_char_def char_of_piece_def Let_def l)
    show "color (piece_of_char (char_of_piece p)) = color p"
      using c by (auto simp: piece_of_char_def char_of_piece_def Let_def l)
  qed simp
  from c show "\<not> is_digit (char_of_piece p)"
    by (auto simp: char_of_piece_def Let_def l)
  from c show "char_of_piece p \<noteq> CHR ''/''"
    by (auto simp: char_of_piece_def Let_def l)
  from c show "char_of_piece p \<noteq> CHR '' ''"
    by (auto simp: char_of_piece_def Let_def l)
qed

lemma digit_char_props:
  assumes "d < 10"
  shows "is_digit (digit_char d)" "digit_val (digit_char d) = d"
    "digit_char d \<noteq> CHR ''/''" "digit_char d \<noteq> CHR '' ''" "digit_char d \<noteq> CHR ''-''"
    "digit_char d \<noteq> CHR ''+''" "digit_char d \<noteq> CHR ''x''" "digit_char d \<noteq> CHR ''X''"
    "\<not> is_space (digit_char d)"
proof -
  from assms have "d = 0 \<or> d = 1 \<or> d = 2 \<or> d = 3 \<or> d = 4 \<or> d = 5 \<or> d = 6 \<or> d = 7 \<or> d = 8 \<or> d = 9"
    by arith
  then show "is_digit (digit_char d)" "digit_val (digit_char d) = d"
    "digit_char d \<noteq> CHR ''/''" "digit_char d \<noteq> CHR '' ''" "digit_char d \<noteq> CHR ''-''"
    "digit_char d \<noteq> CHR ''+''" "digit_char d \<noteq> CHR ''x''" "digit_char d \<noteq> CHR ''X''"
    "\<not> is_space (digit_char d)"
    by (auto simp: digit_char_def digit_chars_def is_digit_def digit_val_def is_space_def)
qed

lemma is_digit_not_sep:
  "is_digit c \<Longrightarrow> c \<noteq> CHR '' '' \<and> c \<noteq> CHR ''/'' \<and> c \<noteq> CHR ''-'' \<and> c \<noteq> CHR ''+''
     \<and> c \<noteq> CHR ''x'' \<and> c \<noteq> CHR ''X'' \<and> \<not> is_space c"
  by (auto simp: is_digit_def digit_chars_def is_space_def)

lemma show_nat_small: "n < 10 \<Longrightarrow> show_nat n = [digit_char n]"
  by (subst show_nat.simps) simp

lemma show_nat_all_digits: "list_all is_digit (show_nat n)"
proof (induction n rule: show_nat.induct)
  case (1 n)
  show ?case
  proof (cases "n < 10")
    case True
    then show ?thesis by (simp add: show_nat_small digit_char_props)
  next
    case False
    then have "show_nat n = show_nat (n div 10) @ [digit_char (n mod 10)]"
      by (subst show_nat.simps) simp
    then show ?thesis using 1 False by (simp add: digit_char_props)
  qed
qed

lemma show_nat_nonempty: "show_nat n \<noteq> []"
  by (subst show_nat.simps) simp

lemma digits_value_snoc: "digits_value r (ds @ [d]) = digits_value r ds * r + d"
  by (simp add: digits_value_def)

lemma digits_value_show_nat: "digits_value 10 (map digit_val (show_nat n)) = n"
proof (induction n rule: show_nat.induct)
  case (1 n)
  show ?case
  proof (cases "n < 10")
    case True
    then show ?thesis by (simp add: show_nat_small digit_char_props digits_value_def)
  next
    case False
    then have e: "show_nat n = show_nat (n div 10) @ [digit_char (n mod 10)]"
      by (subst show_nat.simps) simp
    show ?thesis using 1 False by (simp add: e digits_value_snoc digit_char_props)
  qed
qed

lemma takeWhile_all: "list_all P xs \<Longrightarrow> takeWhile P xs = xs"
  by (induction xs) auto

lemma no_hex_prefix:
  assumes "list_all is_digit s"
  shows "(case s of a # b # _ \<Rightarrow> a = CHR ''0'' \<and> (b = CHR ''x'' \<or> b = CHR ''X'') | _ \<Rightarrow> False) = False"
proof (cases s)
  case Nil
  then show ?thesis by simp
next
  case (Cons a t)
  show ?thesis
  proof (cases t)
    case Nil
    then show ?thesis using Cons by simp
  next
    case (Cons b u)
    with assms \<open>s = a # t\<close> have "is_digit b" by simp
    then have "b \<noteq> CHR ''x''" "b \<noteq> CHR ''X''" using is_digit_not_sep by blast+
    then show ?thesis using Cons \<open>s = a # t\<close> by simp
  qed
qed

lemma parse_digits_show_nat: "parse_digits neg (show_nat n) = Some (if neg then - int n else int n)"
proof -
  have h: "(case show_nat n of a # b # _ \<Rightarrow> a = CHR ''0'' \<and> (b = CHR ''x'' \<or> b = CHR ''X'') | _ \<Rightarrow> False) = False"
    using show_nat_all_digits by (rule no_hex_prefix)
  have t: "takeWhile is_digit (show_nat n) = show_nat n"
    using show_nat_all_digits by (rule takeWhile_all)
  show ?thesis
    unfolding parse_digits_def h t Let_def
    by (simp add: digits_value_show_nat show_nat_nonempty)
qed

lemma show_nat_head: "\<exists>c cs. show_nat n = c # cs \<and> is_digit c"
  using show_nat_all_digits [of n] show_nat_nonempty [of n] by (cases "show_nat n") auto

lemma parseInt_show_int: "parseInt (show_int i) = Some i"
proof (cases "i < 0")
  case True
  have "\<not> is_space CHR ''-''" by (simp add: is_space_def)
  then show ?thesis using True
    by (simp add: parseInt_def show_int_def parse_digits_show_nat)
next
  case False
  obtain c cs where s: "show_nat (nat i) = c # cs" and d: "is_digit c"
    using show_nat_head by blast
  have "parse_digits False (c # cs) = Some i"
    using parse_digits_show_nat [of False "nat i"] False s by simp
  then show ?thesis using False s is_digit_not_sep [OF d]
    by (simp add: parseInt_def show_int_def)
qed

lemma show_int_no_space: "CHR '' '' \<notin> set (show_int i)"
  using show_nat_all_digits is_digit_not_sep
  by (auto simp: show_int_def list_all_iff)

lemma ranks8_upt: "ranks8 = map int [0..<8]"
  by code_simp

lemma cells_of_row:
  assumes "r < length b" "length (b ! r) = 8"
  shows "map (cell b (int r)) ranks8 = b ! r"
proof -
  have "map (cell b (int r)) ranks8 = map (\<lambda>i. (b ! r) ! i) [0..<length (b ! r)]"
    using assms by (simp add: ranks8_upt cell_def)
  then show ?thesis by (simp add: map_nth)
qed

lemma parse_digit_step:
  assumes "0 < n" "n \<le> 8"
  shows "parseFen_loop (show_nat n @ rest) b rk (int fl) = parseFen_loop rest b rk (int (fl + n))"
proof -
  from assms have n: "n < 10" by simp
  show ?thesis
    by (simp add: show_nat_small [OF n] digit_char_props [OF n])
qed

lemma set_cell_in_range:
  "r < length b \<Longrightarrow> f < length (b ! r) \<Longrightarrow> set_cell b (int r) (int f) x = b[r := (b ! r)[f := x]]"
  by (simp add: set_cell_def row_set_def)

lemma parse_piece_step:
  assumes "wf_piece p" "r < length b" "f < length (b ! r)"
  shows "parseFen_loop (char_of_piece p # rest) b (int r) (int f)
         = parseFen_loop rest (b[r := (b ! r)[f := Some p]]) (int r) (int (f + 1))"
  using assms by (simp add: piece_roundtrip set_cell_in_range add.commute)

lemma parse_row:
  assumes "r < length b" "length (b ! r) = 8" "fl + n + length cs = 8"
    and "\<forall>i. fl \<le> i \<and> i < 8 \<longrightarrow> (b ! r) ! i = None"
    and "\<forall>p. Some p \<in> set cs \<longrightarrow> wf_piece p"
  shows "parseFen_loop (boardToFen_files cs n @ rest) b (int r) (int fl)
         = parseFen_loop rest (b[r := take (fl + n) (b ! r) @ cs]) (int r) 8"
  using assms
proof (induction cs arbitrary: b fl n)
  case Nil
  then have e: "fl + n = 8" by simp
  have b: "b[r := take (fl + n) (b ! r) @ []] = b"
    using Nil.prems(2) e by simp
  show ?case
  proof (cases "n = 0")
    case True
    then show ?thesis using e b by simp
  next
    case False
    then have "0 < n" "n \<le> 8" using e by simp_all
    from parse_digit_step [OF this, of rest b "int r" fl]
    have "parseFen_loop (show_nat n @ rest) b (int r) (int fl) = parseFen_loop rest b (int r) 8"
      by (simp only: e) simp
    then show ?thesis using b False by simp
  qed
next
  case (Cons x cs)
  have lt: "fl + n < 8" using Cons.prems(3) by simp
  show ?case
  proof (cases x)
    case None
    have nn: "(b ! r) ! (fl + n) = None" using Cons.prems(4) lt by simp
    have tk: "take (Suc (fl + n)) (b ! r) = take (fl + n) (b ! r) @ [None]"
      using lt Cons.prems(2) nn by (simp add: take_Suc_conv_app_nth)
    have "parseFen_loop (boardToFen_files cs (n + 1) @ rest) b (int r) (int fl)
          = parseFen_loop rest (b[r := take (fl + (n + 1)) (b ! r) @ cs]) (int r) 8"
      using Cons.prems by (intro Cons.IH) auto
    then show ?thesis using None tk by simp
  next
    case (Some p)
    have wp: "wf_piece p" using Cons.prems(5) Some by simp
    let ?b = "b[r := (b ! r)[fl + n := Some p]]"
    have dg: "parseFen_loop ((if n > 0 then show_nat n else []) @ char_of_piece p # boardToFen_files cs 0 @ rest) b (int r) (int fl)
        = parseFen_loop (char_of_piece p # boardToFen_files cs 0 @ rest) b (int r) (int (fl + n))"
    proof (cases "n = 0")
      case True
      then show ?thesis by simp
    next
      case False
      then have "0 < n" "n \<le> 8" using lt by simp_all
      from parse_digit_step [OF this] show ?thesis using False by simp
    qed
    have pc: "parseFen_loop (char_of_piece p # boardToFen_files cs 0 @ rest) b (int r) (int (fl + n))
        = parseFen_loop (boardToFen_files cs 0 @ rest) ?b (int r) (int (fl + n + 1))"
    proof (rule parse_piece_step [OF wp Cons.prems(1)])
      show "fl + n < length (b ! r)" using lt Cons.prems(2) by simp
    qed
    have br: "?b ! r = (b ! r)[fl + n := Some p]" using Cons.prems(1) by simp
    have ih: "parseFen_loop (boardToFen_files cs 0 @ rest) ?b (int r) (int (fl + n + 1))
        = parseFen_loop rest (?b[r := take (fl + n + 1 + 0) (?b ! r) @ cs]) (int r) 8"
      using Cons.prems br by (intro Cons.IH) auto
    have tk: "take (fl + n + 1) (?b ! r) = take (fl + n) (b ! r) @ [Some p]"
      using lt Cons.prems(2) by (simp add: br take_Suc_conv_app_nth)
    have fin: "?b[r := take (fl + n + 1 + 0) (?b ! r) @ cs] = b[r := take (fl + n) (b ! r) @ Some p # cs]"
      using tk by simp
    show ?thesis
      using dg pc ih fin Some by simp
  qed
qed

lemma wf_board_row: "wf_board b \<Longrightarrow> r < 8 \<Longrightarrow> wf_row (b ! r)"
  by (simp add: wf_board_def list_all_length)

lemma wf_row_pieces: "wf_row row \<Longrightarrow> Some p \<in> set row \<Longrightarrow> wf_piece p"
  by (auto simp: wf_row_def list_all_iff split: option.splits)

lemma blank_from_step:
  assumes "length b = 8" "r < 8"
  shows "(blank_from b r)[r := b ! r] = blank_from b (Suc r)"
proof -
  have "replicate (8 - r) (replicate 8 (None :: piece option)) = replicate 8 None # replicate (8 - Suc r) (replicate 8 None)"
    using assms(2) by (simp add: replicate_Suc [symmetric] Suc_diff_Suc del: replicate_Suc)
  then show ?thesis
    using assms by (simp add: blank_from_def list_update_append take_Suc_conv_app_nth)
qed

lemma blank_from_row:
  assumes "length b = 8" "r < 8"
  shows "blank_from b r ! r = replicate 8 None" "length (blank_from b r) = 8"
  using assms by (simp_all add: blank_from_def nth_append)

lemma parse_rank:
  assumes "wf_board b" "r < 8"
  shows "parseFen_loop (boardToFen_files (map (cell b (int r)) ranks8) 0 @ rest) (blank_from b r) (int r) 0
         = parseFen_loop rest (blank_from b (Suc r)) (int r) 8"
proof -
  have len: "length b = 8" using assms(1) by (simp add: wf_board_def)
  have row: "wf_row (b ! r)" using assms by (rule wf_board_row)
  then have rl: "length (b ! r) = 8" by (simp add: wf_row_def)
  have cells: "map (cell b (int r)) ranks8 = b ! r"
    using cells_of_row [of r b] assms(2) len rl by simp
  have "parseFen_loop (boardToFen_files (b ! r) 0 @ rest) (blank_from b r) (int r) (int 0)
        = parseFen_loop rest ((blank_from b r)[r := take (0 + 0) (blank_from b r ! r) @ b ! r]) (int r) 8"
  proof (rule parse_row)
    show "r < length (blank_from b r)" using blank_from_row [OF len assms(2)] assms(2) by simp
    show "length (blank_from b r ! r) = 8" using blank_from_row [OF len assms(2)] by simp
    show "0 + 0 + length (b ! r) = 8" using rl by simp
    show "\<forall>i. 0 \<le> i \<and> i < 8 \<longrightarrow> blank_from b r ! r ! i = None"
      using blank_from_row [OF len assms(2)] by simp
    show "\<forall>p. Some p \<in> set (b ! r) \<longrightarrow> wf_piece p"
      using row wf_row_pieces by blast
  qed
  then show ?thesis
    using cells blank_from_step [OF len assms(2)] by simp
qed

lemma rows_from_step: "r < 8 \<Longrightarrow> rows_from b r = boardToFen_rank b (int r) @ rows_from b (Suc r)"
  by (simp add: rows_from_def upt_conv_Cons)

lemma parse_rows:
  assumes "wf_board b" "r \<le> 7"
  shows "parseFen_loop (rows_from b r) (blank_from b r) (int r) 0 = Some b"
  using assms(2)
proof (induction rule: inc_induct)
  case base
  have len: "length b = 8" using assms(1) by (simp add: wf_board_def)
  have "rows_from b 7 = boardToFen_files (map (cell b (int 7)) ranks8) 0 @ []"
    by (simp add: rows_from_step boardToFen_rank_def rows_from_def)
  then have "parseFen_loop (rows_from b 7) (blank_from b 7) (int 7) 0 = parseFen_loop [] (blank_from b (Suc 7)) (int 7) 8"
    using parse_rank [OF assms(1), of 7 "[]"] by simp
  then show ?case using len by (simp add: blank_from_def)
next
  case (step n)
  then have n: "n < 8" "int n < 7" by simp_all
  have "rows_from b n = boardToFen_files (map (cell b (int n)) ranks8) 0 @ (CHR ''/'' # rows_from b (Suc n))"
    using n by (simp add: rows_from_step boardToFen_rank_def)
  then have "parseFen_loop (rows_from b n) (blank_from b n) (int n) 0
      = parseFen_loop (CHR ''/'' # rows_from b (Suc n)) (blank_from b (Suc n)) (int n) 8"
    using parse_rank [OF assms(1) n(1)] by simp
  also have "\<dots> = parseFen_loop (rows_from b (Suc n)) (blank_from b (Suc n)) (int (Suc n)) 0"
    by (simp add: add.commute)
  finally show ?case using step.IH by simp
qed

lemma parse_all_rows:
  assumes "wf_board b"
  shows "parseFen_loop (concat (map (boardToFen_rank b) ranks8)) empty_board 0 0 = Some b"
  using parse_rows [OF assms, of 0]
  by (simp add: rows_from_def ranks8_upt blank_from_def empty_board_def)

lemma show_nat_no_space: "CHR '' '' \<notin> set (show_nat n)"
  using show_nat_all_digits [of n] is_digit_not_sep by (auto simp: list_all_iff)

lemma files_no_space:
  "\<forall>p. Some p \<in> set cs \<longrightarrow> wf_piece p \<Longrightarrow> CHR '' '' \<notin> set (boardToFen_files cs n)"
proof (induction cs n rule: boardToFen_files.induct)
  case (1 n)
  then show ?case by (simp add: show_nat_no_space)
next
  case (2 cs n)
  then show ?case by simp
next
  case (3 p cs n)
  then have "wf_piece p" by simp
  then have "char_of_piece p \<noteq> CHR '' ''" by (rule piece_roundtrip)
  then show ?case using 3 by (auto simp: show_nat_no_space)
qed

lemma rows_no_space:
  assumes "wf_board b"
  shows "CHR '' '' \<notin> set (concat (map (boardToFen_rank b) ranks8))"
proof -
  have "CHR '' '' \<notin> set (boardToFen_rank b (int r))" if "r < 8" for r
  proof -
    have row: "wf_row (b ! r)" using assms that by (rule wf_board_row)
    have "map (cell b (int r)) ranks8 = b ! r"
      using cells_of_row [of r b] that assms row by (simp add: wf_board_def wf_row_def)
    then show ?thesis
      using files_no_space [of "b ! r" 0] row wf_row_pieces
      by (auto simp: boardToFen_rank_def)
  qed
  then show ?thesis by (auto simp: ranks8_upt)
qed

lemma split_acc_field:
  "d \<notin> set a \<Longrightarrow> split_acc d acc (a @ d # rest) = (rev acc @ a) # split_acc d [] rest"
  by (induction a arbitrary: acc) auto

lemma split_acc_last: "d \<notin> set a \<Longrightarrow> split_acc d acc a = [rev acc @ a]"
  by (induction a arbitrary: acc) auto

lemma split_six:
  assumes "d \<notin> set f0" "d \<notin> set f1" "d \<notin> set f2" "d \<notin> set f3" "d \<notin> set f4" "d \<notin> set f5"
  shows "split d (f0 @ [d] @ f1 @ [d] @ f2 @ [d] @ f3 @ [d] @ f4 @ [d] @ f5) = [f0, f1, f2, f3, f4, f5]"
  using assms by (simp add: split_def split_acc_field split_acc_last)

lemma split_serialize:
  assumes "wf_position v"
  shows "split CHR '' '' (serialize v)
         = [concat (map (boardToFen_rank (board v)) ranks8), turn v, castling v, enPassant v,
            show_int (halfMoveClock v), show_int (fullMoveNumber v)]"
proof -
  have "serialize v = concat (map (boardToFen_rank (board v)) ranks8) @ [CHR '' ''] @ turn v @ [CHR '' '']
       @ castling v @ [CHR '' ''] @ enPassant v @ [CHR '' ''] @ show_int (halfMoveClock v) @ [CHR '' '']
       @ show_int (fullMoveNumber v)"
    by (simp add: serialize_def boardToFen_def)
  moreover have "split CHR '' '' (concat (map (boardToFen_rank (board v)) ranks8) @ [CHR '' ''] @ turn v @ [CHR '' '']
       @ castling v @ [CHR '' ''] @ enPassant v @ [CHR '' ''] @ show_int (halfMoveClock v) @ [CHR '' '']
       @ show_int (fullMoveNumber v))
     = [concat (map (boardToFen_rank (board v)) ranks8), turn v, castling v, enPassant v,
            show_int (halfMoveClock v), show_int (fullMoveNumber v)]"
  proof (rule split_six)
    show "CHR '' '' \<notin> set (concat (map (boardToFen_rank (board v)) ranks8))"
      using assms rows_no_space by (simp add: wf_position_def)
    show "CHR '' '' \<notin> set (turn v)" "CHR '' '' \<notin> set (castling v)" "CHR '' '' \<notin> set (enPassant v)"
      using assms by (simp_all add: wf_position_def wf_field_def)
    show "CHR '' '' \<notin> set (show_int (halfMoveClock v))" "CHR '' '' \<notin> set (show_int (fullMoveNumber v))"
      by (rule show_int_no_space)+
  qed
  ultimately show ?thesis by (simp only:)
qed

text \<open>
  Claim C8. For every legal position, parsing its position string (the six fields: the
  board with runs of empty squares as digits, side to move, castling flags, en-passant
  square or sentinel, half-move clock, full-move number) gives the position back; the
  validator built from the string holds the string itself as \<open>fen\<close>. The castling field
  and the en-passant field may be any text without a space, so every combination of
  flags and the sentinel are covered.
\<close>

theorem fen_round_trip:
  assumes "wf_position v"
  shows "new_validator (serialize v) = Some (v\<lparr>fen := serialize v\<rparr>)"
proof -
  note sp = split_serialize [OF assms]
  have b: "parseFen (serialize v) = Some (board v)"
    using assms parse_all_rows [of "board v"] by (simp add: parseFen_def sp wf_position_def)
  have f: "turn v \<noteq> []" "castling v \<noteq> []" "enPassant v \<noteq> []" "fullMoveNumber v \<noteq> 0"
    using assms by (auto simp: wf_position_def wf_field_def)
  show ?thesis
    using f by (simp add: new_validator_def b parseFenState_def sp at_index_def str_or_def int_or_def
        parseInt_show_int Let_def)
qed

lemma split_three:
  assumes "d \<notin> set f0" "d \<notin> set f1" "d \<notin> set f2"
  shows "split d (f0 @ [d] @ f1 @ [d] @ f2) = [f0, f1, f2]"
  using assms by (simp add: split_def split_acc_field split_acc_last)

lemma position_key_serialize:
  assumes "wf_position v"
  shows "position_key (serialize v)
         = concat (map (boardToFen_rank (board v)) ranks8) @ [CHR '' ''] @ turn v @ [CHR '' ''] @ castling v"
  by (simp add: position_key_def split_serialize [OF assms])

lemma rows_inject:
  assumes "wf_board a" "wf_board b"
    and "concat (map (boardToFen_rank a) ranks8) = concat (map (boardToFen_rank b) ranks8)"
  shows "a = b"
proof -
  have "Some a = parseFen_loop (concat (map (boardToFen_rank a) ranks8)) empty_board 0 0"
    by (rule parse_all_rows [OF assms(1), symmetric])
  also have "\<dots> = parseFen_loop (concat (map (boardToFen_rank b) ranks8)) empty_board 0 0"
    by (simp only: assms(3))
  also have "\<dots> = Some b"
    by (rule parse_all_rows [OF assms(2)])
  finally show ?thesis by simp
qed

lemma position_key_eq:
  assumes "wf_position v" "wf_position w"
  shows "position_key (serialize w) = position_key (serialize v) \<longleftrightarrow> position_triple w = position_triple v"
proof
  assume "position_triple w = position_triple v"
  then show "position_key (serialize w) = position_key (serialize v)"
    by (simp add: position_key_serialize assms position_triple_def)
next
  assume e: "position_key (serialize w) = position_key (serialize v)"
  have sv: "split CHR '' '' (position_key (serialize v))
        = [concat (map (boardToFen_rank (board v)) ranks8), turn v, castling v]"
    unfolding position_key_serialize [OF assms(1)]
    using assms(1) rows_no_space [of "board v"]
    by (intro split_three) (simp_all add: wf_position_def wf_field_def)
  have sw: "split CHR '' '' (position_key (serialize w))
        = [concat (map (boardToFen_rank (board w)) ranks8), turn w, castling w]"
    unfolding position_key_serialize [OF assms(2)]
    using assms(2) rows_no_space [of "board w"]
    by (intro split_three) (simp_all add: wf_position_def wf_field_def)
  from e sv sw have "concat (map (boardToFen_rank (board w)) ranks8) = concat (map (boardToFen_rank (board v)) ranks8)"
    "turn w = turn v" "castling w = castling v"
    by simp_all
  then show "position_triple w = position_triple v"
    using rows_inject [of "board w" "board v"] assms by (simp add: position_triple_def wf_position_def)
qed

text \<open>
  Claim C6, as amended. For legal positions written as position strings, a threefold
  repetition is reported exactly when board, side to move and castling rights of the
  current position occur three times or more among the current position and the
  history; the en-passant target is not compared.
\<close>

theorem threefold_compares_three_fields:
  assumes "wf_position v" "fen v = serialize v" "\<forall>w \<in> set hist. wf_position w"
  shows "isThreefoldRepetition v (map serialize hist)
         \<longleftrightarrow> 3 \<le> length (filter (\<lambda>w. position_triple w = position_triple v) (v # hist))"
proof -
  have "filter (\<lambda>w. position_key (serialize w) = position_key (serialize v)) (v # hist)
        = filter (\<lambda>w. position_triple w = position_triple v) (v # hist)"
    using assms(1,3) by (intro filter_cong) (auto simp: position_key_eq)
  then have "length (filter (\<lambda>p. p = position_key (serialize v)) (map (\<lambda>w. position_key (serialize w)) (v # hist)))
        = length (filter (\<lambda>w. position_triple w = position_triple v) (v # hist))"
    by (simp add: filter_map comp_def del: filter.simps list.map)
  then show ?thesis
    by (simp add: isThreefoldRepetition_def assms(2) Let_def comp_def)
qed

text \<open>
  Claim C6 as stated fails: the current position has the en-passant target e3, the two
  positions of the history have none, and a threefold repetition is reported although
  the tuple with the en-passant target occurs once.
\<close>

theorem threefold_ignores_en_passant:
  "new_validator ''4k3/8/8/8/4P3/8/8/4K3 black - e3 0 1'' = Some ep_pos
   \<and> new_validator ''4k3/8/8/8/4P3/8/8/4K3 black - - 0 1'' = Some no_ep_pos
   \<and> isThreefoldRepetition ep_pos
        [''4k3/8/8/8/4P3/8/8/4K3 black - - 0 1'', ''4k3/8/8/8/4P3/8/8/4K3 black - - 0 1'']
   \<and> \<not> threefold_spec ep_pos [no_ep_pos, no_ep_pos]"
  unfolding ep_pos_def no_ep_pos_def by code_simp

theorem threefold_compares_three_fields_witness:
  "wf_position ep_pos \<and> wf_position no_ep_pos \<and> fen ep_pos = serialize ep_pos
   \<and> isThreefoldRepetition ep_pos (map serialize [no_ep_pos, no_ep_pos])
   \<and> 3 \<le> length (filter (\<lambda>w. position_triple w = position_triple ep_pos) [ep_pos, no_ep_pos, no_ep_pos])"
proof -
  have a: "wf_position ep_pos" unfolding ep_pos_def by code_simp
  have b: "wf_position no_ep_pos" unfolding no_ep_pos_def by code_simp
  have c: "fen ep_pos = serialize ep_pos" unfolding ep_pos_def by code_simp
  have d: "3 \<le> length (filter (\<lambda>w. position_triple w = position_triple ep_pos) [ep_pos, no_ep_pos, no_ep_pos])"
    unfolding ep_pos_def no_ep_pos_def by code_simp
  have h: "\<forall>w \<in> set [no_ep_pos, no_ep_pos]. wf_position w" using b by simp
  show ?thesis
    using a b c d threefold_compares_three_fields [OF a c h] by simp
qed

theorem fen_round_trip_witness:
  "wf_position castle_pos
   \<and> serialize castle_pos = ''4k3/8/8/8/8/8/8/R3K2R white KQ - 0 1''
   \<and> new_validator (serialize castle_pos) = Some castle_pos
   \<and> wf_position ep_pos
   \<and> serialize ep_pos = ''4k3/8/8/8/4P3/8/8/4K3 black - e3 0 1''
   \<and> new_validator (serialize ep_pos) = Some ep_pos"
proof -
  have a: "wf_position castle_pos" unfolding castle_pos_def by code_simp
  have b: "wf_position ep_pos" unfolding ep_pos_def by code_simp
  have c: "serialize castle_pos = ''4k3/8/8/8/8/8/8/R3K2R white KQ - 0 1''"
     "fen castle_pos = ''4k3/8/8/8/8/8/8/R3K2R white KQ - 0 1''"
    unfolding castle_pos_def by code_simp+
  have d: "serialize ep_pos = ''4k3/8/8/8/4P3/8/8/4K3 black - e3 0 1''"
     "fen ep_pos = ''4k3/8/8/8/4P3/8/8/4K3 black - e3 0 1''"
    unfolding ep_pos_def by code_simp+
  have "castle_pos\<lparr>fen := serialize castle_pos\<rparr> = castle_pos" "ep_pos\<lparr>fen := serialize ep_pos\<rparr> = ep_pos"
    using c d by simp_all
  then show ?thesis
    using a b c d fen_round_trip [OF a] fen_round_trip [OF b] by simp
qed


section \<open>Legal positions stay legal, and the path walk stays on the board\<close>

text \<open>
  \<open>validateMove\<close> keeps a legal position legal, and after an accepted ordinary move the
  validator's \<open>fen\<close> is the position string of its fields; the standard start is legal.
  So the positions reached by play are among those of the round trip above.
  \<open>isPathClear\<close> returns a value for two squares of the board on one rank, file or
  diagonal, the only way \<open>isPseudoLegalMove\<close> calls it.
\<close>

lemma wf_cell:
  assumes "wf_board b" "cell b r c = Some p"
  shows "wf_piece p"
proof -
  from assms(2) have r: "0 \<le> r" "nat r < length b" and c: "0 \<le> c" "nat c < length (b ! nat r)"
    and e: "b ! nat r ! nat c = Some p"
    by (auto simp: cell_def Let_def nat_less_iff split: if_splits)
  have "wf_row (b ! nat r)" using assms(1) r by (simp add: wf_board_def list_all_length)
  then have "case b ! nat r ! nat c of None \<Rightarrow> True | Some q \<Rightarrow> wf_piece q"
    using c by (simp add: wf_row_def list_all_length)
  then show ?thesis by (simp add: e)
qed

lemma wf_row_update:
  assumes "wf_row row" "case x of None \<Rightarrow> True | Some q \<Rightarrow> wf_piece q"
  shows "wf_row (row[i := x])"
proof -
  have "y \<in> set (row[i := x]) \<Longrightarrow> y = x \<or> y \<in> set row" for y
    using set_update_subset_insert [of row i x] by auto
  then show ?thesis
    using assms unfolding wf_row_def list_all_iff by auto
qed

lemma wf_board_set_cell:
  assumes "wf_board b" "0 \<le> r" "r < 8" "0 \<le> c" "c < 8"
    and "case x of None \<Rightarrow> True | Some q \<Rightarrow> wf_piece q"
  shows "wf_board (set_cell b r c x)"
proof -
  have len: "length b = 8" using assms(1) by (simp add: wf_board_def)
  have row: "wf_row (b ! nat r)" using assms(1,2,3) by (simp add: wf_board_def list_all_length)
  then have rl: "length (b ! nat r) = 8" by (simp add: wf_row_def)
  have nr: "nat r < 8" and nc: "nat c < 8" using assms(2-5) by simp_all
  have e: "set_cell b r c x = b[nat r := (b ! nat r)[nat c := x]]"
    using assms(2-5) len rl nr nc by (simp add: set_cell_def row_set_def)
  have "wf_row ((b ! nat r)[nat c := x])" using row assms(6) by (rule wf_row_update)
  moreover have "y \<in> set (b[nat r := (b ! nat r)[nat c := x]])
      \<Longrightarrow> y = (b ! nat r)[nat c := x] \<or> y \<in> set b" for y
    using set_update_subset_insert [of b "nat r" "(b ! nat r)[nat c := x]"] by auto
  ultimately show ?thesis
    using assms(1) unfolding e wf_board_def list_all_iff by auto
qed

lemma wf_board_makeMoveOnBoard:
  assumes "wf_board b" "from m \<in> set all_squares" "to m \<in> set all_squares"
  shows "wf_board (makeMoveOnBoard b m)"
proof -
  obtain fr ff where f: "from m = (fr, ff)" by (cases "from m")
  obtain tr tf where t: "to m = (tr, tf)" by (cases "to m")
  from assms(2) f have fb: "0 \<le> fr \<and> fr < 8 \<and> 0 \<le> ff \<and> ff < 8" using all_squares_on_board by simp
  from assms(3) t have tb: "0 \<le> tr \<and> tr < 8 \<and> 0 \<le> tf \<and> tf < 8" using all_squares_on_board by simp
  have p: "case cell b fr ff of None \<Rightarrow> True | Some q \<Rightarrow> wf_piece q"
    using wf_cell [OF assms(1)] by (auto split: option.splits)
  have "wf_board (set_cell b tr tf (cell b fr ff))"
    using assms(1) tb p by (simp add: wf_board_set_cell)
  then have "wf_board (set_cell (set_cell b tr tf (cell b fr ff)) fr ff None)"
    using fb by (simp add: wf_board_set_cell)
  then show ?thesis by (simp add: makeMoveOnBoard_def Let_def f t)
qed

lemma on_board_in_all_squares:
  assumes "0 \<le> r" "r < 8" "0 \<le> f" "f < 8"
  shows "(r, f) \<in> set all_squares"
proof -
  have "r \<in> set ranks8" "f \<in> set ranks8"
    using assms by (auto simp: ranks8_def)
  then show ?thesis by (auto simp: all_squares_def)
qed

lemma wf_position_applyMove:
  assumes "wf_position v" "from m \<in> set all_squares" "to m \<in> set all_squares"
  shows "wf_position (applyMove v m ps)"
  using assms wf_board_makeMoveOnBoard [of "board v" m]
  by (auto simp: wf_position_def applyMove_fields wf_field_def)

lemma wf_position_validateMove:
  assumes "wf_position v"
  shows "wf_position (snd (validateMove v san))"
proof -
  have "wf_position (applyMove v mv ps)" if a: "accepted_as v san ps mv" for ps mv
  proof -
    from a have fp: "findPieceMove v (piece ps) (fromFile ps) (fromRank ps)
        (indexOf RANKS (toRank ps), indexOf FILES (toFile ps)) = Some mv"
      and i: "indexOf FILES (toFile ps) \<noteq> - 1" "indexOf RANKS (toRank ps) \<noteq> - 1"
      by (simp_all add: accepted_as_def)
    from findPieceMove_Some [OF fp] have f: "from mv \<in> set all_squares"
      and t: "to mv = (indexOf RANKS (toRank ps), indexOf FILES (toFile ps))" by simp_all
    have "to mv \<in> set all_squares"
      unfolding t using indexOf_range [OF i(1)] indexOf_range [OF i(2)]
      by (intro on_board_in_all_squares) (simp_all add: FILES_def RANKS_def)
    with assms f show ?thesis by (rule wf_position_applyMove)
  qed
  then show ?thesis
    using validateMove_result [of v san] assms by auto
qed

lemma fen_after_accepted_move:
  assumes "fst (validateMove v san) = ValidMove mv cap pr"
  shows "fen (snd (validateMove v san)) = serialize (snd (validateMove v san))"
proof -
  from validateMove_result [of v san] assms obtain ps where
    r: "snd (validateMove v san) = applyMove v mv ps"
    by auto
  show ?thesis
    unfolding r serialize_def by (simp add: applyMove_def Let_def)
qed

lemma wf_position_start: "map_option wf_position (new_validator INITIAL_FEN) = Some True"
  by code_simp

lemma step_stays_between:
  assumes "\<bar>s\<bar> \<le> 1" "0 \<le> r" "r \<le> 7" "0 \<le> r + int (Suc k) * s" "r + int (Suc k) * s \<le> 7"
  shows "0 \<le> r + s \<and> r + s \<le> (7::int)"
proof -
  from assms(1) have "s = - 1 \<or> s = 0 \<or> s = 1" by arith
  then show ?thesis using assms(2-5) by auto
qed

lemma path_loop_defined:
  assumes "on_board tr tc" "\<bar>sr\<bar> \<le> 1" "\<bar>sc\<bar> \<le> 1" "sr \<noteq> 0 \<or> sc \<noteq> 0"
  shows "on_board r c \<Longrightarrow> tr = r + int k * sr \<Longrightarrow> tc = c + int k * sc
         \<Longrightarrow> isPathClear_loop b sr sc tr tc r c \<noteq> None"
proof (induction k arbitrary: r c)
  case 0
  then show ?case by (subst isPathClear_loop.simps) simp
next
  case (Suc k)
  have "0 \<le> r + sr \<and> r + sr \<le> 7"
    using assms(1,2) Suc.prems by (intro step_stays_between [of sr r k]) (simp_all add: on_board_def)
  moreover have "0 \<le> c + sc \<and> c + sc \<le> 7"
    using assms(1,3) Suc.prems by (intro step_stays_between [of sc c k]) (simp_all add: on_board_def)
  ultimately have nb: "on_board (r + sr) (c + sc)"
    by (simp add: on_board_def)
  have "isPathClear_loop b sr sc tr tc (r + sr) (c + sc) \<noteq> None"
    using Suc.prems by (intro Suc.IH [OF nb]) (simp_all add: algebra_simps)
  then show ?case
    using Suc.prems(1) assms(4) by (subst isPathClear_loop.simps) auto
qed

lemma isPathClear_defined:
  assumes "on_board (fst a) (snd a)" "on_board (fst t) (snd t)"
    and "fst t - fst a = 0 \<or> snd t - snd a = 0 \<or> \<bar>fst t - fst a\<bar> = \<bar>snd t - snd a\<bar>"
  shows "isPathClear v a t \<noteq> None"
proof (cases "a = t")
  case True
  have "isPathClear_loop (board v) 0 0 (fst t) (snd t) (fst t) (snd t) = Some True"
    by (subst isPathClear_loop.simps) simp
  then show ?thesis
    using True by (simp add: isPathClear_def Let_def)
next
  case False
  define dr where "dr = sgn (fst t - fst a)"
  define dc where "dc = sgn (snd t - snd a)"
  define k where "k = nat (max \<bar>fst t - fst a\<bar> \<bar>snd t - snd a\<bar>)"
  have nz: "dr \<noteq> 0 \<or> dc \<noteq> 0"
    using False by (cases a; cases t) (auto simp: dr_def dc_def sgn_if)
  have ab: "\<bar>dr\<bar> \<le> 1" "\<bar>dc\<bar> \<le> 1"
    by (simp_all add: dr_def dc_def sgn_if)
  have kpos: "0 < k"
    using False by (cases a; cases t) (auto simp: k_def)
  then obtain j where j: "k = Suc j" by (cases k) auto
  have tr: "fst t = fst a + int k * dr" and tc: "snd t = snd a + int k * dc"
    using assms(3) by (auto simp: k_def dr_def dc_def sgn_if max_def)
  have st: "0 \<le> fst a + dr \<and> fst a + dr \<le> 7"
  proof (rule step_stays_between [OF ab(1), of "fst a" j])
    show "0 \<le> fst a" "fst a \<le> 7" using assms(1) by (simp_all add: on_board_def)
    show "0 \<le> fst a + int (Suc j) * dr" "fst a + int (Suc j) * dr \<le> 7"
      using assms(2) tr unfolding j by (simp_all add: on_board_def)
  qed
  have st2: "0 \<le> snd a + dc \<and> snd a + dc \<le> 7"
  proof (rule step_stays_between [OF ab(2), of "snd a" j])
    show "0 \<le> snd a" "snd a \<le> 7" using assms(1) by (simp_all add: on_board_def)
    show "0 \<le> snd a + int (Suc j) * dc" "snd a + int (Suc j) * dc \<le> 7"
      using assms(2) tc unfolding j by (simp_all add: on_board_def)
  qed
  have "isPathClear_loop (board v) dr dc (fst t) (snd t) (fst a + dr) (snd a + dc) \<noteq> None"
  proof (rule path_loop_defined [OF assms(2) ab nz, of _ _ j])
    show "on_board (fst a + dr) (snd a + dc)" using st st2 by (simp add: on_board_def)
    show "fst t = fst a + dr + int j * dr" using tr by (simp add: j algebra_simps)
    show "snd t = snd a + dc + int j * dc" using tc by (simp add: j algebra_simps)
  qed
  then show ?thesis
    by (simp add: isPathClear_def Let_def dr_def dc_def)
qed

end
